theory Spec2Isabelle
  imports Complex_Main "HOL-Library.Word"
begin

section \<open>Python primitives used by the mount driver\<close>

text \<open>
  The driver (\<^verbatim>\<open>examples/piggybacktelescope.py\<close>, with the thread-based sibling
  \<^verbatim>\<open>examples/TelescopeComm.py\<close>) is Python. Its floats are modelled as real numbers
  with exact arithmetic, apart from the rounded addition inside \<^verbatim>\<open>%\<close>, its unbounded
  integers as \<open>int\<close>/\<open>nat\<close>, its \<^verbatim>\<open>bytes\<close> as lists of 8-bit words and its \<^verbatim>\<open>str\<close> as
  \<open>string\<close>. An exception is a value of type \<open>fault\<close>.
\<close>

datatype fault = ValueError | IndexError | TypeError

type_synonym byte = "8 word"

text \<open>\<^verbatim>\<open>int(x)\<close> on a float truncates towards zero.\<close>

definition py_int :: "real \<Rightarrow> int" where
  "py_int x = (if 0 \<le> x then \<lfloor>x\<rfloor> else \<lceil>x\<rceil>)"

text \<open>
  Rounding to the nearest double, ties to even. It is modelled for the addition inside
  \<^verbatim>\<open>%\<close>, where it can carry a remainder up to the divisor itself, a value that the exact
  remainder never takes. \<open>float_exponent x\<close> is the binary exponent of a positive \<open>x\<close>, the
  \<open>e\<close> with \<open>2^e \<le> x < 2^(e+1)\<close>; a double has 53 significant bits and its exponent is not
  below \<open>-1022\<close>. Overflow does not occur there: the sum rounded in \<^verbatim>\<open>%\<close> is smaller in size
  than the divisor.
\<close>

function float_exponent :: "real \<Rightarrow> int" where
  "float_exponent x =
     (if x \<le> 0 then 0
      else if 2 \<le> x then float_exponent (x / 2) + 1
      else if x < 1 then float_exponent (x * 2) - 1
      else 0)"
  by pat_completeness auto
termination
proof (relation "measure (\<lambda>x. nat \<bar>\<lfloor>log 2 x\<rfloor>\<bar>)")
  show "wf (measure (\<lambda>x. nat \<bar>\<lfloor>log 2 x\<rfloor>\<bar>))" by simp
next
  fix x :: real
  assume a: "\<not> x \<le> 0" "2 \<le> x"
  have l: "log 2 (x / 2) = log 2 x - 1" using a by (simp add: log_divide)
  have "1 \<le> log 2 x" using a by (simp add: le_log_iff)
  then have f: "1 \<le> \<lfloor>log 2 x\<rfloor>" by (simp add: le_floor_iff)
  have g: "\<lfloor>log 2 (x / 2)\<rfloor> = \<lfloor>log 2 x\<rfloor> - 1" unfolding l by simp
  have "nat \<bar>\<lfloor>log 2 (x / 2)\<rfloor>\<bar> < nat \<bar>\<lfloor>log 2 x\<rfloor>\<bar>" unfolding g using f by linarith
  then show "(x / 2, x) \<in> measure (\<lambda>x. nat \<bar>\<lfloor>log 2 x\<rfloor>\<bar>)" by simp
next
  fix x :: real
  assume a: "\<not> x \<le> 0" "\<not> 2 \<le> x" "x < 1"
  have l: "log 2 (x * 2) = log 2 x + 1" using a by (simp add: log_mult)
  have "log 2 x < 0" using a by simp
  then have f: "\<lfloor>log 2 x\<rfloor> \<le> - 1" by (simp add: floor_le_iff)
  have g: "\<lfloor>log 2 (x * 2)\<rfloor> = \<lfloor>log 2 x\<rfloor> + 1" unfolding l by simp
  have "nat \<bar>\<lfloor>log 2 (x * 2)\<rfloor>\<bar> < nat \<bar>\<lfloor>log 2 x\<rfloor>\<bar>" unfolding g using f by linarith
  then show "(x * 2, x) \<in> measure (\<lambda>x. nat \<bar>\<lfloor>log 2 x\<rfloor>\<bar>)" by simp
qed

declare float_exponent.simps [simp del]

definition round_half_even :: "real \<Rightarrow> int" where
  "round_half_even x =
     (let f = \<lfloor>x\<rfloor>; d = x - of_int f
      in if d < 1 / 2 \<or> (d = 1 / 2 \<and> even f) then f else f + 1)"

definition float_round :: "real \<Rightarrow> real" where
  "float_round x =
     (if x = 0 then 0
      else let u = 2 powi (max (float_exponent \<bar>x\<bar>) (- 1022) - 52)
           in of_int (round_half_even (x / u)) * u)"

text \<open>
  \<^verbatim>\<open>x % m\<close> on floats, as the interpreter computes it: the remainder \<open>fmod\<close> of the C
  library, which is exact and has the sign of \<open>x\<close>; if it is not zero and its sign is not
  that of the divisor, the divisor is added to it, and this sum is rounded. For \<open>x\<close> a
  little below zero and \<open>m = 360\<close> the rounded sum is \<open>360.0\<close> itself. The driver divides by
  the constants 360, 180 and 24 only, so the \<^verbatim>\<open>ZeroDivisionError\<close> of a zero divisor does
  not occur.
\<close>

definition fmod :: "real \<Rightarrow> real \<Rightarrow> real" where
  "fmod x y = x - y * of_int (py_int (x / y))"

definition py_fmod :: "real \<Rightarrow> real \<Rightarrow> real" where
  "py_fmod vx wx =
     (let r = fmod vx wx
      in if r \<noteq> 0
         then (if (wx < 0) \<noteq> (r < 0) then float_round (r + wx) else r)
         else 0)"

text \<open>Digits as \<^verbatim>\<open>bin\<close> and \<^verbatim>\<open>hex\<close> print them (lower case), most significant first.\<close>

definition digit_char :: "nat \<Rightarrow> char" where
  "digit_char d = ''0123456789abcdef'' ! d"

function pos_digits :: "nat \<Rightarrow> nat \<Rightarrow> string" where
  "pos_digits b n =
     (if n = 0 \<or> b < 2 then [] else pos_digits b (n div b) @ [digit_char (n mod b)])"
  by pat_completeness auto
termination
  by (relation "measure snd") auto

declare pos_digits.simps [simp del]

definition digits_str :: "nat \<Rightarrow> nat \<Rightarrow> string" where
  "digits_str b n = (if n = 0 then ''0'' else pos_digits b n)"

definition bin :: "int \<Rightarrow> string" where
  "bin i = (if i < 0 then ''-0b'' else ''0b'') @ digits_str 2 (nat \<bar>i\<bar>)"

definition hex :: "int \<Rightarrow> string" where
  "hex i = (if i < 0 then ''-0x'' else ''0x'') @ digits_str 16 (nat \<bar>i\<bar>)"

text \<open>The slice \<^verbatim>\<open>s[i:j]\<close> for \<open>0 \<le> i \<le> j\<close>; like Python's, it clamps at the end.\<close>

definition slice :: "nat \<Rightarrow> nat \<Rightarrow> 'a list \<Rightarrow> 'a list" where
  "slice i j xs = take (j - i) (drop i xs)"

text \<open>
  \<^verbatim>\<open>int(s, base)\<close> on a string of digits. Python also accepts a sign, surrounding
  white space, underscores and a base prefix; the driver only ever passes digit strings
  it has cut or printed itself, and every other string is a \<open>ValueError\<close> here.
\<close>

definition digit_val :: "char \<Rightarrow> nat option" where
  "digit_val c =
     (let k = (of_char c :: nat) in
      if 48 \<le> k \<and> k \<le> 57 then Some (k - 48)
      else if 97 \<le> k \<and> k \<le> 122 then Some (k - 87)
      else if 65 \<le> k \<and> k \<le> 90 then Some (k - 55)
      else None)"

fun parse_digits :: "nat \<Rightarrow> nat \<Rightarrow> string \<Rightarrow> nat option" where
  "parse_digits b acc [] = Some acc"
| "parse_digits b acc (c # cs) =
     (case digit_val c of
        None \<Rightarrow> None
      | Some d \<Rightarrow> if d < b then parse_digits b (acc * b + d) cs else None)"

definition int_str :: "string \<Rightarrow> nat \<Rightarrow> fault + int" where
  "int_str s b =
     (if s = [] then Inl ValueError
      else case parse_digits b 0 s of None \<Rightarrow> Inl ValueError | Some n \<Rightarrow> Inr (int n))"

text \<open>
  \<^verbatim>\<open>bytes.fromhex(s)\<close> for a string without white space: two hex digits per byte,
  \<open>ValueError\<close> on an odd length or on any other character.
\<close>

fun fromhex :: "string \<Rightarrow> fault + byte list" where
  "fromhex [] = Inr []"
| "fromhex [c] = Inl ValueError"
| "fromhex (c # d # cs) =
     (case digit_val c of
        None \<Rightarrow> Inl ValueError
      | Some hi \<Rightarrow>
          (case digit_val d of
             None \<Rightarrow> Inl ValueError
           | Some lo \<Rightarrow>
               if hi < 16 \<and> lo < 16
               then (case fromhex cs of
                       Inl e \<Rightarrow> Inl e
                     | Inr bs \<Rightarrow> Inr (of_nat (16 * hi + lo) # bs))
               else Inl ValueError))"

section \<open>The angle codec\<close>

text \<open>
  The idiom that follows every \<^verbatim>\<open>hex\<close> call of the driver:
  \<^verbatim>\<open>h = hex(b)[2:]; if len(h) < 2: h = "0" + h\<close>.
\<close>

definition pad2 :: "string \<Rightarrow> string" where
  "pad2 h = (if length h < 2 then ''0'' @ h else h)"

definition hex2 :: "int \<Rightarrow> string" where
  "hex2 b = pad2 (drop 2 (hex b))"

text \<open>
  \<^verbatim>\<open>encodeAngle\<close>, from \<^verbatim>\<open>b = bin(integer)\<close> on: the bit pattern is padded with zeros on
  the left (\<^verbatim>\<open>add * "0"\<close> is empty for a negative \<^verbatim>\<open>add\<close>), cut into three slices of
  eight characters, and each slice is read back in base 2 and printed in base 16.
\<close>

definition pad24 :: "int \<Rightarrow> string" where
  "pad24 integer =
     (let b = bin integer;
          len = int (length (drop 2 b));
          add = 24 - len
      in take 2 b @ replicate (nat add) CHR ''0'' @ drop 2 b)"

definition encode_int :: "int \<Rightarrow> fault + string \<times> string \<times> string" where
  "encode_int integer =
     (let b = pad24 integer in
      case int_str (slice 2 10 b) 2 of
        Inl e \<Rightarrow> Inl e
      | Inr b1 \<Rightarrow>
          (case int_str (slice 10 18 b) 2 of
             Inl e \<Rightarrow> Inl e
           | Inr b2 \<Rightarrow>
               (case int_str (slice 18 26 b) 2 of
                  Inl e \<Rightarrow> Inl e
                | Inr b3 \<Rightarrow> Inr (hex2 b1, hex2 b2, hex2 b3))))"

definition encodeAngle :: "real \<Rightarrow> fault + string \<times> string \<times> string" where
  "encodeAngle alpha =
     (let alpha = py_fmod alpha 360;
          integer = py_int ((alpha / 360) * 2 ^ 24)
      in encode_int integer)"

definition decodeAngle :: "string \<Rightarrow> string \<Rightarrow> string \<Rightarrow> fault + real" where
  "decodeAngle h1 h2 h3 =
     (case int_str h1 16 of
        Inl e \<Rightarrow> Inl e
      | Inr v1 \<Rightarrow>
          (case int_str h2 16 of
             Inl e \<Rightarrow> Inl e
           | Inr v2 \<Rightarrow>
               (case int_str h3 16 of
                  Inl e \<Rightarrow> Inl e
                | Inr v3 \<Rightarrow>
                    (let integer = 2 ^ 16 * v1 + 2 ^ 8 * v2 + v3
                     in Inr ((real_of_int integer / 2 ^ 24) * 360)))))"

text \<open>
  What the encoder puts on the wire: command frames are built by concatenating the three
  strings and pass through \<^verbatim>\<open>bytes.fromhex\<close> in \<^verbatim>\<open>RS232_Talk\<close>.
\<close>

definition encoded_bytes :: "real \<Rightarrow> fault + byte list" where
  "encoded_bytes a =
     (case encodeAngle a of Inl e \<Rightarrow> Inl e | Inr (h1, h2, h3) \<Rightarrow> fromhex (h1 @ h2 @ h3))"


section \<open>The mount session\<close>

text \<open>
  The attributes of \<^verbatim>\<open>piggyBackTelescope\<close> that the modelled methods read or write, as one
  record. \<open>wire\<close> is the serial port seen from outside: every frame written with
  \<^verbatim>\<open>ser.write\<close>, paired with the reply that \<^verbatim>\<open>ser.readline\<close> returned for it, oldest
  first. \<open>motion_status\<close> is what the last \<^verbatim>\<open>_change_motion_status\<close> call of the framework
  base class recorded, \<open>logged\<close> the calls to the logger with their format strings.
\<close>

datatype MotionStatus =
  PARKED | INITIALIZING | IDLE | SLEWING | TRACKING | POSITIONED | PARKING | ABORTING | ERROR

datatype pynum = PyInt int | PyFloat real

datatype log_level = INFO | WARNING | LOGERROR

record mount =
  identity :: nat
  RS232_QUEUE :: "nat list"
  event_set :: bool
  wire :: "(byte list \<times> byte list) list"
  motion_status :: MotionStatus
  GOTO_RUNNING :: bool
  GOTO_IN_STOP :: bool
  ra :: real
  dec :: real
  mot1 :: real
  mot2 :: real
  tracking_rate_mot1 :: pynum
  tracking_rate_mot2 :: pynum
  logged :: "(log_level \<times> string) list"

text \<open>The class attributes as declared, with the status that \<^verbatim>\<open>open\<close> sets.\<close>

definition initial_mount :: mount where
  "initial_mount =
     \<lparr>identity = 0, RS232_QUEUE = [], event_set = False, wire = [],
      motion_status = PARKED, GOTO_RUNNING = False, GOTO_IN_STOP = False,
      ra = 0, dec = 0, mot1 = 90, mot2 = 90,
      tracking_rate_mot1 = PyFloat 0, tracking_rate_mot2 = PyFloat 0, logged = []\<rparr>"

text \<open>
  What lies outside the driver: the reply the mount gives to the \<open>k\<close>-th transaction on
  the wire, and whether \<^verbatim>\<open>abort_event.is_set()\<close> holds when it is asked after \<open>k\<close>
  transactions.
\<close>

record env =
  replies :: "nat \<Rightarrow> byte list"
  abort_set :: "nat \<Rightarrow> bool"

text \<open>
  A call returns a value, or raises, or never returns (\<open>None\<close>); in the first two cases
  it leaves a state behind.
\<close>

datatype 'a outcome = Returns 'a mount | Raises fault mount

definition andThen ::
  "'a outcome option \<Rightarrow> ('a \<Rightarrow> mount \<Rightarrow> 'b outcome option) \<Rightarrow> 'b outcome option" where
  "andThen m f =
     (case m of
        None \<Rightarrow> None
      | Some (Raises e s) \<Rightarrow> Some (Raises e s)
      | Some (Returns a s) \<Rightarrow> f a s)"

definition lift :: "fault + 'a \<Rightarrow> mount \<Rightarrow> 'a outcome option" where
  "lift r s = (case r of Inl e \<Rightarrow> Some (Raises e s) | Inr a \<Rightarrow> Some (Returns a s))"

definition log_msg :: "log_level \<Rightarrow> string \<Rightarrow> mount \<Rightarrow> mount" where
  "log_msg lvl msg s = s\<lparr>logged := logged s @ [(lvl, msg)]\<rparr>"

subsection \<open>Command strings\<close>

definition RA_GOTO_RUN :: string where "RA_GOTO_RUN = ''5001101300000001''"
definition DEC_GOTO_RUN :: string where "DEC_GOTO_RUN = ''5001111300000001''"
definition GOTO_MOT1_SLOW :: string where "GOTO_MOT1_SLOW = ''50041017''"
definition GOTO_MOT1_FAST :: string where "GOTO_MOT1_FAST = ''50041002''"
definition GOTO_MOT2_SLOW :: string where "GOTO_MOT2_SLOW = ''50041117''"
definition GOTO_MOT2_FAST :: string where "GOTO_MOT2_FAST = ''50041102''"
definition GOTO_STOP :: string where "GOTO_STOP = ''4d''"
definition POS_MOT1_TRACKING :: string where "POS_MOT1_TRACKING = ''50031006''"
definition NEG_MOT1_TRACKING :: string where "NEG_MOT1_TRACKING = ''50031007''"
definition POS_MOT2_TRACKING :: string where "POS_MOT2_TRACKING = ''50031106''"
definition NEG_MOT2_TRACKING :: string where "NEG_MOT2_TRACKING = ''50031107''"
definition TRACKING_END_SEQUENCE :: string where "TRACKING_END_SEQUENCE = ''0000''"
definition GET_MOT1_COMMAND :: string where "GET_MOT1_COMMAND = ''5001100100000003''"
definition GET_MOT2_COMMAND :: string where "GET_MOT2_COMMAND = ''5001110100000003''"

subsection \<open>\<^verbatim>\<open>RS232_Talk\<close>: one transaction on the serial line\<close>

text \<open>
  The method as one caller runs it. It takes a ticket and appends it to the queue
  (\<open>enqueue\<close>), clears the event, waits until \<^verbatim>\<open>RS232_QUEUE.index(my_id)\<close> is 0, writes the
  frame and reads one reply, pops the head of the queue inside \<^verbatim>\<open>try ... except\<close>, sets
  the event and returns the reply (\<open>finish_talk\<close>). The lock around the two queue updates
  is free whenever a single caller asks for it and is left out. A caller whose ticket is
  not at the head waits for an event that only another caller can set: on its own it
  never returns. \<^verbatim>\<open>TelescopeComm.RS232_Talk\<close>, the thread-based sibling, wraps its tickets at
  1000 instead of 10000 and writes no log; it is the same otherwise.
\<close>

definition py_index :: "'a list \<Rightarrow> 'a \<Rightarrow> fault + nat" where
  "py_index xs x =
     (if x \<in> set xs then Inr (length (takeWhile (\<lambda>y. y \<noteq> x) xs)) else Inl ValueError)"

definition py_pop0 :: "'a list \<Rightarrow> fault + 'a \<times> 'a list" where
  "py_pop0 xs = (case xs of [] \<Rightarrow> Inl IndexError | x # rest \<Rightarrow> Inr (x, rest))"

definition enqueue :: "mount \<Rightarrow> nat \<times> mount" where
  "enqueue s =
     (let s = s\<lparr>identity := (identity s + 1) mod 10000\<rparr>;
          my_id = identity s;
          s = s\<lparr>RS232_QUEUE := RS232_QUEUE s @ [my_id]\<rparr>
      in (my_id, log_msg INFO ''Length of RS232 QUEUE: {}'' s))"

definition release :: "mount \<Rightarrow> mount" where
  "release s =
     (case py_pop0 (RS232_QUEUE s) of
        Inl e \<Rightarrow> (log_msg LOGERROR ''SOME RESOURCE ACCESS ERROR OCURRED!'' s)\<lparr>motion_status := ERROR\<rparr>
      | Inr (x, rest) \<Rightarrow> s\<lparr>RS232_QUEUE := rest\<rparr>)"

definition finish_talk :: "byte list \<Rightarrow> mount \<Rightarrow> byte list outcome" where
  "finish_talk data s = Returns data ((release s)\<lparr>event_set := True\<rparr>)"

definition RS232_Talk :: "env \<Rightarrow> string \<Rightarrow> mount \<Rightarrow> byte list outcome option" where
  "RS232_Talk e command s =
     (case fromhex command of
        Inl err \<Rightarrow> Some (Raises err s)
      | Inr bs \<Rightarrow>
          (let (my_id, s) = enqueue s;
               s = s\<lparr>event_set := False\<rparr>
           in case py_index (RS232_QUEUE s) my_id of
                Inl err \<Rightarrow> Some (Raises err s)
              | Inr i \<Rightarrow>
                  if i \<noteq> 0 then None
                  else (let data = replies e (length (wire s));
                            s = s\<lparr>wire := wire s @ [(bs, data)]\<rparr>
                        in Some (finish_talk data s))))"

subsection \<open>Reading a motor angle\<close>

text \<open>
  \<^verbatim>\<open>xs[i]\<close> for an index that is not negative, and the decoding of the first three bytes of
  a reply as \<^verbatim>\<open>GET_MOT1\<close> and \<^verbatim>\<open>GET_MOT2\<close> both do it.
\<close>

definition py_item :: "'a list \<Rightarrow> nat \<Rightarrow> fault + 'a" where
  "py_item xs i = (if i < length xs then Inr (xs ! i) else Inl IndexError)"

definition decode_reply :: "byte list \<Rightarrow> fault + real" where
  "decode_reply data =
     (case py_item data 0 of
        Inl e \<Rightarrow> Inl e
      | Inr b0 \<Rightarrow>
          (case py_item data 1 of
             Inl e \<Rightarrow> Inl e
           | Inr b1 \<Rightarrow>
               (case py_item data 2 of
                  Inl e \<Rightarrow> Inl e
                | Inr b2 \<Rightarrow> decodeAngle (hex2 (uint b0)) (hex2 (uint b1)) (hex2 (uint b2)))))"

definition GET_MOT1 :: "env \<Rightarrow> mount \<Rightarrow> real outcome option" where
  "GET_MOT1 e s =
     andThen (RS232_Talk e GET_MOT1_COMMAND s) (\<lambda>data s.
       if length data = 4
       then (let s = log_msg INFO ''MOT1 data is: {}, {}, {}: {}'' s
             in andThen (lift (decode_reply data) s) (\<lambda>a s.
                  let s = s\<lparr>mot1 := a\<rparr> in Some (Returns (mot1 s) s)))
       else (let s = log_msg WARNING
                 ''RS232 reading feed incorrect answer in GET_MOT1, use last read answer instead'' s
             in Some (Returns (mot1 s) s)))"

definition GET_MOT2 :: "env \<Rightarrow> mount \<Rightarrow> real outcome option" where
  "GET_MOT2 e s =
     andThen (RS232_Talk e GET_MOT2_COMMAND s) (\<lambda>data s.
       if length data = 4
       then (let s = log_msg INFO ''MOT2 data is: {}, {}, {}: {}'' s
             in andThen (lift (decode_reply data) s) (\<lambda>a s.
                  let s = s\<lparr>mot2 := a\<rparr> in Some (Returns (mot2 s) s)))
       else (let s = log_msg WARNING
                 ''RS232 reading feed incorrect answer in GET_MOT2, use last read answer instead'' s
             in Some (Returns (mot2 s) s)))"

subsection \<open>GOTO: the two-phase slew\<close>

definition GOTO_MOT1 :: "real \<Rightarrow> bool \<Rightarrow> fault + string" where
  "GOTO_MOT1 alpha fast =
     (case encodeAngle alpha of
        Inl e \<Rightarrow> Inl e
      | Inr (h1, h2, h3) \<Rightarrow>
          Inr ((if fast then GOTO_MOT1_FAST else GOTO_MOT1_SLOW) @ h1 @ h2 @ h3 @ ''00''))"

definition GOTO_MOT2 :: "real \<Rightarrow> bool \<Rightarrow> fault + string" where
  "GOTO_MOT2 alpha fast =
     (case encodeAngle alpha of
        Inl e \<Rightarrow> Inl e
      | Inr (h1, h2, h3) \<Rightarrow>
          Inr ((if fast then GOTO_MOT2_FAST else GOTO_MOT2_SLOW) @ h1 @ h2 @ h3 @ ''00''))"

text \<open>
  One \<^verbatim>\<open>if ra_running is False:\<close> block of a polling loop: the status frame is sent, both
  \<^verbatim>\<open>data[0]\<close> and \<^verbatim>\<open>data[1]\<close> are read (an \<open>IndexError\<close> on a shorter reply), and the flag
  becomes \<^verbatim>\<open>hex(data[0]) == hex(255)\<close>.
\<close>

definition poll_axis :: "env \<Rightarrow> string \<Rightarrow> bool \<Rightarrow> mount \<Rightarrow> bool outcome option" where
  "poll_axis e command running s =
     (if \<not> running
      then andThen (RS232_Talk e command s) (\<lambda>data s.
             case data of
               [] \<Rightarrow> Some (Raises IndexError s)
             | [b0] \<Rightarrow> Some (Raises IndexError s)
             | b0 # b1 # rest \<Rightarrow> Some (Returns (hex (uint b0) = hex 255) s))
      else Some (Returns running s))"

text \<open>
  The loop \<^verbatim>\<open>while test is False and abort_event.is_set() is False\<close>, which the method has
  twice with the same body. It need not terminate.
\<close>

partial_function (option) poll_loop ::
  "env \<Rightarrow> bool \<Rightarrow> bool \<Rightarrow> bool \<Rightarrow> mount \<Rightarrow> unit outcome option" where
  "poll_loop e test ra_running dec_running s =
     (if \<not> test \<and> \<not> abort_set e (length (wire s))
      then (case poll_axis e RA_GOTO_RUN ra_running s of
              None \<Rightarrow> None
            | Some (Raises err s) \<Rightarrow> Some (Raises err s)
            | Some (Returns ra_running s) \<Rightarrow>
                (case poll_axis e DEC_GOTO_RUN dec_running s of
                   None \<Rightarrow> None
                 | Some (Raises err s) \<Rightarrow> Some (Raises err s)
                 | Some (Returns dec_running s) \<Rightarrow>
                     poll_loop e (if dec_running \<and> ra_running then True else test)
                       ra_running dec_running s))
      else Some (Returns () s))"

text \<open>
  \<open>move\<close> is the method \<^verbatim>\<open>__move\<close>. It runs the same steps twice, with the fast and then with the slow
  command frames (\<open>slew_phase\<close>): it sends the frame of motor 2, then the frame of motor 1, and polls
  with all three flags reset. \<^verbatim>\<open>log.info(data)\<close> is recorded with the format \<^verbatim>\<open>{data}\<close>.
\<close>

definition slew_phase :: "env \<Rightarrow> string \<Rightarrow> string \<Rightarrow> mount \<Rightarrow> unit outcome option" where
  "slew_phase e mot2_command mot1_command s =
     andThen (RS232_Talk e mot2_command s) (\<lambda>data s.
     andThen (RS232_Talk e mot1_command (log_msg INFO ''{data}'' s)) (\<lambda>data s.
       poll_loop e False False False (log_msg INFO ''{data}'' s)))"

definition move :: "env \<Rightarrow> real \<Rightarrow> real \<Rightarrow> mount \<Rightarrow> unit outcome option" where
  "move e m1 m2 s =
     (let s = log_msg INFO ''Motor1 goes to: {} and Motor2 goes to: {}'' s;
          s = log_msg INFO ''Telescope is SLEWING to position...'' s;
          s = s\<lparr>motion_status := SLEWING\<rparr>;
          s = s\<lparr>GOTO_RUNNING := True\<rparr>;
          s = s\<lparr>GOTO_IN_STOP := False\<rparr>
      in andThen (lift (GOTO_MOT2 m2 True) s) (\<lambda>mot2_fast s.
         andThen (lift (GOTO_MOT2 m2 False) s) (\<lambda>mot2_slow s.
         andThen (lift (GOTO_MOT1 m1 True) s) (\<lambda>mot1_fast s.
         andThen (lift (GOTO_MOT1 m1 False) s) (\<lambda>mot1_slow s.
         andThen (slew_phase e mot2_fast mot1_fast s) (\<lambda>u s.
         andThen (slew_phase e mot2_slow mot1_slow s) (\<lambda>u s.
           let s = s\<lparr>GOTO_RUNNING := False\<rparr>;
               s = s\<lparr>motion_status := POSITIONED\<rparr>
           in Some (Returns ()
                (log_msg INFO ''Telescope is positioned at wished coordinate...'' s)))))))))"

text \<open>
  \<^verbatim>\<open>stop_motion\<close> sends the stop frame and then calls
  \<^verbatim>\<open>self.MOTION_MOT1(self, level = 0)\<close>, which gives the parameter \<^verbatim>\<open>level\<close> two values: a
  \<open>TypeError\<close> at the call, before anything else is sent.
\<close>

definition stop_motion :: "env \<Rightarrow> mount \<Rightarrow> unit outcome option" where
  "stop_motion e s =
     (let s = s\<lparr>motion_status := ABORTING\<rparr>;
          s = s\<lparr>GOTO_IN_STOP := True\<rparr>
      in andThen (RS232_Talk e GOTO_STOP s) (\<lambda>data s.
           Some (Raises TypeError (log_msg INFO ''{data}'' s))))"

subsection \<open>The destination of a GOTO\<close>

definition HourAngle :: "real \<Rightarrow> real \<Rightarrow> real" where
  "HourAngle LST RA =
     (let hourDiff = py_fmod (LST - RA) 24;
          hourDiff = (if hourDiff > 12 then - 24 + hourDiff else hourDiff);
          convertAngle = hourDiff * 15
      in convertAngle)"

text \<open>
  \<^verbatim>\<open>_move_radec\<close>, with the local sidereal time (in hours) that the astronomy library
  returns as a parameter. The right ascension arrives in degrees. \<open>radec_targets\<close> is the
  computation of the two motor targets, \<open>move_radec\<close> the method around it.
\<close>

definition radec_targets :: "real \<Rightarrow> real \<Rightarrow> real \<Rightarrow> real \<times> real" where
  "radec_targets lst ra_h dec_d =
     (let tau = HourAngle lst ra_h;
          sign = sgn tau;
          m2 = (if sign \<ge> 0 then 180 - dec_d else dec_d);
          m2 = py_fmod m2 360;
          m1 = (if sign \<ge> 0 then tau else py_fmod tau 180)
      in (m1, m2))"

definition move_radec :: "env \<Rightarrow> real \<Rightarrow> real \<Rightarrow> real \<Rightarrow> mount \<Rightarrow> unit outcome option" where
  "move_radec e lst ra_deg dec_d s =
     (let s = s\<lparr>motion_status := SLEWING\<rparr>;
          s = s\<lparr>GOTO_RUNNING := True\<rparr>;
          ra_h = py_fmod (ra_deg / 15) 24;
          s = s\<lparr>ra := ra_h, dec := dec_d\<rparr>;
          (m1, m2) = radec_targets lst ra_h dec_d
      in move e m1 m2 s)"

text \<open>
  The destination as the specification words it: the hour angle is
  \<open>normalizeSigned((LST - RA) mod 24h)\<close> in hours, times 15; motor2 goes to \<open>180 - Dec\<close> if
  the hour angle is not negative and to \<open>Dec\<close> otherwise, reduced mod 360; motor1 goes to the
  hour angle if it is not negative and to the hour angle mod 180 otherwise.
\<close>

definition normalizeSigned :: "real \<Rightarrow> real" where
  "normalizeSigned h = (if h > 12 then h - 24 else h)"

definition spec_targets :: "real \<Rightarrow> real \<Rightarrow> real \<Rightarrow> real \<times> real" where
  "spec_targets LST RA Dec =
     (let tau = normalizeSigned (py_fmod (LST - RA) 24) * 15
      in (if tau \<ge> 0 then tau else py_fmod tau 180,
          py_fmod (if tau \<ge> 0 then 180 - Dec else Dec) 360))"

subsection \<open>Tracking\<close>

text \<open>
  A rate is a Python \<^verbatim>\<open>int\<close> or \<^verbatim>\<open>float\<close>, and the arithmetic of \<^verbatim>\<open>tracking\<close> keeps the type
  it is given: \<^verbatim>\<open>np.sign\<close>, \<^verbatim>\<open>np.abs\<close>, \<^verbatim>\<open>* 4\<close>, \<^verbatim>\<open>// 256\<close> and \<^verbatim>\<open>-\<close> of a float are floats.
  \<^verbatim>\<open>hex\<close> takes an integer only. The integers numpy returns are 64-bit; they are unbounded
  here, which is the same for rates below \<open>2^61\<close> in size.
\<close>

fun np_sign :: "pynum \<Rightarrow> pynum" where
  "np_sign (PyInt i) = PyInt (sgn i)"
| "np_sign (PyFloat x) = PyFloat (sgn x)"

fun np_abs :: "pynum \<Rightarrow> pynum" where
  "np_abs (PyInt i) = PyInt \<bar>i\<bar>"
| "np_abs (PyFloat x) = PyFloat \<bar>x\<bar>"

fun py_ge0 :: "pynum \<Rightarrow> bool" where
  "py_ge0 (PyInt i) = (i \<ge> 0)"
| "py_ge0 (PyFloat x) = (x \<ge> 0)"

fun py_mul :: "pynum \<Rightarrow> int \<Rightarrow> pynum" where
  "py_mul (PyInt i) k = PyInt (i * k)"
| "py_mul (PyFloat x) k = PyFloat (x * of_int k)"

text \<open>\<^verbatim>\<open>x // k\<close> for a divisor \<open>k\<close> other than 0 (the driver divides by 256).\<close>

fun py_floordiv :: "pynum \<Rightarrow> int \<Rightarrow> pynum" where
  "py_floordiv (PyInt i) k = PyInt (i div k)"
| "py_floordiv (PyFloat x) k = PyFloat (of_int \<lfloor>x / of_int k\<rfloor>)"

fun py_sub :: "pynum \<Rightarrow> pynum \<Rightarrow> pynum" where
  "py_sub (PyInt i) (PyInt j) = PyInt (i - j)"
| "py_sub (PyInt i) (PyFloat y) = PyFloat (of_int i - y)"
| "py_sub (PyFloat x) (PyInt j) = PyFloat (x - of_int j)"
| "py_sub (PyFloat x) (PyFloat y) = PyFloat (x - y)"

fun py_int_of :: "pynum \<Rightarrow> int" where
  "py_int_of (PyInt i) = i"
| "py_int_of (PyFloat x) = py_int x"

fun py_hex :: "pynum \<Rightarrow> fault + string" where
  "py_hex (PyInt i) = Inr (hex i)"
| "py_hex (PyFloat x) = Inl TypeError"

definition tracking :: "env \<Rightarrow> pynum \<Rightarrow> pynum \<Rightarrow> mount \<Rightarrow> unit outcome option" where
  "tracking e rate_mot1 rate_mot2 s =
     (let s = s\<lparr>motion_status := TRACKING\<rparr>;
          s = s\<lparr>tracking_rate_mot1 := rate_mot1\<rparr>;
          s = s\<lparr>tracking_rate_mot2 := rate_mot2\<rparr>;
          sign_mot1 = np_sign rate_mot1;
          sign_mot2 = np_sign rate_mot2;
          rate_mot1 = np_abs rate_mot1;
          rate_mot2 = np_abs rate_mot2;
          encode_rate_mot1 = py_mul rate_mot1 4;
          h1_mot1 = py_floordiv encode_rate_mot1 256;
          tmp = py_sub encode_rate_mot1 (py_mul h1_mot1 256);
          h2_mot1 = py_int_of tmp;
          encode_rate_mot2 = py_mul rate_mot2 4;
          h1_mot2 = py_floordiv encode_rate_mot2 256;
          tmp = py_sub encode_rate_mot2 (py_mul h1_mot2 256);
          h2_mot2 = py_int_of tmp
      in andThen (lift (py_hex h1_mot1) s) (\<lambda>h s.
           let h1_mot1 = pad2 (drop 2 h);
               h2_mot1 = hex2 h2_mot1
           in andThen (lift (py_hex h1_mot2) s) (\<lambda>h s.
                let h1_mot2 = pad2 (drop 2 h);
                    h2_mot2 = hex2 h2_mot2;
                    MOT1_TRACKING_COMMAND =
                      (if py_ge0 sign_mot1 then POS_MOT1_TRACKING else NEG_MOT1_TRACKING)
                        @ h1_mot1 @ h2_mot1 @ TRACKING_END_SEQUENCE;
                    MOT2_TRACKING_COMMAND =
                      (if py_ge0 sign_mot2 then POS_MOT2_TRACKING else NEG_MOT2_TRACKING)
                        @ h1_mot2 @ h2_mot2 @ TRACKING_END_SEQUENCE
                in andThen (RS232_Talk e MOT1_TRACKING_COMMAND s) (\<lambda>data s.
                   andThen (RS232_Talk e MOT2_TRACKING_COMMAND s) (\<lambda>data s.
                     Some (Returns () (log_msg INFO ''{data}'' s)))))))"

subsection \<open>Reading outcomes, and transports to run the driver against\<close>

definition returned :: "'a outcome option \<Rightarrow> 'a option" where
  "returned r = (case r of Some (Returns a s) \<Rightarrow> Some a | _ \<Rightarrow> None)"

definition raised :: "'a outcome option \<Rightarrow> fault option" where
  "raised r = (case r of Some (Raises e s) \<Rightarrow> Some e | _ \<Rightarrow> None)"

definition state_after :: "'a outcome option \<Rightarrow> mount option" where
  "state_after r =
     (case r of Some (Returns a s) \<Rightarrow> Some s | Some (Raises e s) \<Rightarrow> Some s | None \<Rightarrow> None)"

text \<open>The state a lone caller of \<^verbatim>\<open>RS232_Talk\<close> leaves behind when the queue was empty.\<close>

definition after_talk :: "env \<Rightarrow> byte list \<Rightarrow> mount \<Rightarrow> mount" where
  "after_talk e bs s =
     s\<lparr>identity := (identity s + 1) mod 10000,
       logged := logged s @ [(INFO, ''Length of RS232 QUEUE: {}'')],
       wire := wire s @ [(bs, replies e (length (wire s)))],
       event_set := True\<rparr>"

text \<open>A transport that answers every frame with the same reply, and is never aborted.\<close>

definition const_env :: "byte list \<Rightarrow> env" where
  "const_env r = \<lparr>replies = (\<lambda>k. r), abort_set = (\<lambda>k. False)\<rparr>"

text \<open>
  A transport whose replies start with the stopped sentinel from the transaction numbered
  \<open>stop_at\<close> on, and whose abort flag is set from \<open>abort_at\<close> transactions on, if at all.
\<close>

definition mock_env :: "nat \<Rightarrow> nat option \<Rightarrow> env" where
  "mock_env stop_at abort_at =
     \<lparr>replies = (\<lambda>k. if stop_at \<le> k then [0xFF, 0x00] else [0x00, 0x00]),
      abort_set = (\<lambda>k. case abort_at of None \<Rightarrow> False | Some n \<Rightarrow> n \<le> k)\<rparr>"

text \<open>The angle that the first three bytes of a reply stand for.\<close>

definition reply_angle :: "byte list \<Rightarrow> real" where
  "reply_angle data =
     real_of_int (2 ^ 16 * uint (data ! 0) + 2 ^ 8 * uint (data ! 1) + uint (data ! 2))
       / 2 ^ 24 * 360"

text \<open>
  The bytes of a well-formed command string, and a tracking frame as the specification
  words it: the opcode, \<open>high = floor(v / 256)\<close>, \<open>low = v mod 256\<close>, and the two closing
  zero bytes.
\<close>

definition frame_bytes :: "string \<Rightarrow> byte list" where
  "frame_bytes c = (case fromhex c of Inl e \<Rightarrow> [] | Inr bs \<Rightarrow> bs)"


text \<open>The frames a call has put on the wire, given the state before and the outcome.\<close>

definition frames_sent :: "mount \<Rightarrow> 'a outcome option \<Rightarrow> byte list list option" where
  "frames_sent s r = map_option (\<lambda>s'. map fst (drop (length (wire s)) (wire s'))) (state_after r)"

text \<open>
  The frames of a GOTO on the wire: the two status requests, and a command frame, which is
  its opcode, the three bytes of the encoded angle, and a closing zero byte.
\<close>

definition RA_POLL :: "byte list" where
  "RA_POLL = frame_bytes RA_GOTO_RUN"

definition DEC_POLL :: "byte list" where
  "DEC_POLL = frame_bytes DEC_GOTO_RUN"

definition angle_bytes :: "real \<Rightarrow> byte list" where
  "angle_bytes a = (case encoded_bytes a of Inl e \<Rightarrow> [] | Inr bs \<Rightarrow> bs)"

definition goto_frame :: "string \<Rightarrow> real \<Rightarrow> byte list" where
  "goto_frame opcode a = frame_bytes opcode @ angle_bytes a @ [0x00]"





section \<open>Digits and parsing\<close>

lemma digit_val_digit_char: "d < 16 \<Longrightarrow> digit_val (digit_char d) = Some d"
proof -
  assume "d < 16"
  then have "d = 0 \<or> d = 1 \<or> d = 2 \<or> d = 3 \<or> d = 4 \<or> d = 5 \<or> d = 6 \<or> d = 7 \<or> d = 8
      \<or> d = 9 \<or> d = 10 \<or> d = 11 \<or> d = 12 \<or> d = 13 \<or> d = 14 \<or> d = 15"
    by arith
  then show ?thesis by (auto simp: digit_val_def digit_char_def)
qed

lemma parse_digits_append:
  "parse_digits b acc (s @ t) =
     (case parse_digits b acc s of None \<Rightarrow> None | Some a \<Rightarrow> parse_digits b a t)"
  by (induction s arbitrary: acc) (auto split: option.splits)

lemma parse_pos_digits:
  "2 \<le> b \<Longrightarrow> b \<le> 16 \<Longrightarrow>
   parse_digits b acc (pos_digits b n) = Some (acc * b ^ length (pos_digits b n) + n)"
proof (induction b n arbitrary: acc rule: pos_digits.induct)
  case (1 b n)
  show ?case
  proof (cases "n = 0")
    case True
    then show ?thesis by (simp add: pos_digits.simps)
  next
    case False
    with 1 have IH: "\<And>acc. parse_digits b acc (pos_digits b (n div b)) =
        Some (acc * b ^ length (pos_digits b (n div b)) + n div b)"
      by simp
    have d: "digit_val (digit_char (n mod b)) = Some (n mod b)"
      using 1(2,3) by (intro digit_val_digit_char) (simp add: less_le_trans [OF mod_less_divisor])
    have m: "n mod b < b" using 1(2) by simp
    have unf: "pos_digits b n = pos_digits b (n div b) @ [digit_char (n mod b)]"
      using False 1(2) by (subst pos_digits.simps) simp
    show ?thesis
      by (simp add: unf parse_digits_append IH d m algebra_simps)
  qed
qed

lemma length_pos_digits: "2 \<le> b \<Longrightarrow> n < b ^ k \<Longrightarrow> length (pos_digits b n) \<le> k"
proof (induction k arbitrary: n)
  case 0
  then show ?case by (simp add: pos_digits.simps)
next
  case (Suc k)
  show ?case
  proof (cases "n = 0")
    case True
    then show ?thesis by (simp add: pos_digits.simps)
  next
    case False
    have "n div b < b ^ k"
      using Suc.prems by (simp add: less_mult_imp_div_less mult.commute)
    then have "length (pos_digits b (n div b)) \<le> k"
      using Suc.IH Suc.prems(1) by blast
    moreover have "pos_digits b n = pos_digits b (n div b) @ [digit_char (n mod b)]"
      using False Suc.prems(1) by (subst pos_digits.simps) simp
    ultimately show ?thesis by simp
  qed
qed

lemma pos_digits_nonempty: "2 \<le> b \<Longrightarrow> 0 < n \<Longrightarrow> pos_digits b n \<noteq> []"
  by (subst pos_digits.simps) simp

lemma parse_zeros: "0 < b \<Longrightarrow> parse_digits b acc (replicate k CHR ''0'') = Some (acc * b ^ k)"
  by (induction k arbitrary: acc) (auto simp: digit_val_def)

lemma parse_acc:
  "parse_digits b acc s =
     (case parse_digits b 0 s of None \<Rightarrow> None | Some v \<Rightarrow> Some (acc * b ^ length s + v))"
proof (induction s arbitrary: acc rule: rev_induct)
  case Nil
  then show ?case by simp
next
  case (snoc c s)
  show ?case
    by (simp add: parse_digits_append snoc.IH [of acc] split: option.splits)
       (auto simp: algebra_simps)
qed

lemma parse_bound: "parse_digits b 0 s = Some v \<Longrightarrow> v < b ^ length s"
proof (induction s arbitrary: v rule: rev_induct)
  case Nil
  then show ?case by simp
next
  case (snoc c s)
  from snoc.prems obtain a d where a: "parse_digits b 0 s = Some a"
    and d: "digit_val c = Some d" "d < b" and v: "v = a * b + d"
    by (auto simp: parse_digits_append split: option.splits if_splits)
  from snoc.IH [OF a] have "Suc a \<le> b ^ length s" by simp
  then have "Suc a * b \<le> b ^ length s * b" by (rule mult_le_mono1)
  moreover have "a * b + d < Suc a * b" using d(2) by simp
  ultimately show ?case by (simp add: v mult.commute)
qed

lemma parse_split3:
  assumes len: "length p = 24" and p: "parse_digits 2 0 p = Some n"
  shows "parse_digits 2 0 (take 8 p) = Some (n div 65536)"
    and "parse_digits 2 0 (take 8 (drop 8 p)) = Some (n div 256 mod 256)"
    and "parse_digits 2 0 (take 8 (drop 16 p)) = Some (n mod 256)"
proof -
  define s1 s2 s3 where "s1 = take 8 p" and "s2 = take 8 (drop 8 p)" and "s3 = take 8 (drop 16 p)"
  have l: "length s1 = 8" "length s2 = 8" "length s3 = 8"
    using len by (simp_all add: s1_def s2_def s3_def)
  have c: "take 8 (drop 16 p) = drop 16 p" using len by simp
  have b: "take 8 (drop 8 p) @ drop 16 p = drop 8 p"
    using append_take_drop_id [of 8 "drop 8 p"] by simp
  have pp: "p = s1 @ s2 @ s3" by (simp add: s1_def s2_def s3_def c b)
  from p obtain v1 where v1: "parse_digits 2 0 s1 = Some v1"
    and r1: "parse_digits 2 v1 (s2 @ s3) = Some n"
    by (auto simp: pp parse_digits_append split: option.splits)
  from r1 obtain w2 where w2: "parse_digits 2 v1 s2 = Some w2"
    and r2: "parse_digits 2 w2 s3 = Some n"
    by (auto simp: parse_digits_append split: option.splits)
  from w2 obtain v2 where v2: "parse_digits 2 0 s2 = Some v2" and w2e: "w2 = v1 * 256 + v2"
    by (subst (asm) parse_acc) (auto simp: l split: option.splits)
  from r2 obtain v3 where v3: "parse_digits 2 0 s3 = Some v3" and ne: "n = w2 * 256 + v3"
    by (subst (asm) parse_acc) (auto simp: l split: option.splits)
  have b: "v1 < 256" "v2 < 256" "v3 < 256"
    using parse_bound [OF v1] parse_bound [OF v2] parse_bound [OF v3] by (simp_all add: l)
  have n: "n = v1 * 65536 + v2 * 256 + v3" by (simp add: ne w2e)
  show "parse_digits 2 0 (take 8 p) = Some (n div 65536)"
    using b v1 by (simp add: n s1_def [symmetric])
  have "n div 256 = v1 * 256 + v2" using b by (simp add: n)
  then have "n div 256 mod 256 = v2" using b by simp
  then show "parse_digits 2 0 (take 8 (drop 8 p)) = Some (n div 256 mod 256)"
    using v2 by (simp add: s2_def [symmetric])
  have "n mod 256 = v3" using b by (simp add: ne)
  then show "parse_digits 2 0 (take 8 (drop 16 p)) = Some (n mod 256)"
    using v3 by (simp add: s3_def [symmetric])
qed

lemma parse_digits_str:
  "2 \<le> b \<Longrightarrow> b \<le> 16 \<Longrightarrow> parse_digits b 0 (digits_str b n) = Some n"
  by (simp add: digits_str_def parse_pos_digits digit_val_def)

lemma digits_str_nonempty: "2 \<le> b \<Longrightarrow> digits_str b n \<noteq> []"
  by (simp add: digits_str_def pos_digits_nonempty)

lemma length_digits_str:
  "2 \<le> b \<Longrightarrow> 0 < k \<Longrightarrow> n < b ^ k \<Longrightarrow> length (digits_str b n) \<le> k"
  by (simp add: digits_str_def length_pos_digits)

lemma bin_nonneg: "0 \<le> i \<Longrightarrow> bin i = ''0b'' @ digits_str 2 (nat i)"
  by (simp add: bin_def)

lemma hex_nonneg: "0 \<le> i \<Longrightarrow> hex i = ''0x'' @ digits_str 16 (nat i)"
  by (simp add: hex_def)

lemma pad24_form:
  assumes "0 \<le> i" and "i < 2 ^ 24"
  shows "\<exists>p. pad24 i = ''0b'' @ p \<and> length p = 24 \<and> parse_digits 2 0 p = Some (nat i)"
proof -
  define d where "d = digits_str 2 (nat i)"
  have "nat i < 2 ^ 24" using assms by (simp add: nat_less_iff)
  then have len: "length d \<le> 24" unfolding d_def by (intro length_digits_str) simp_all
  have par: "parse_digits 2 0 d = Some (nat i)" unfolding d_def by (simp add: parse_digits_str)
  define p where "p = replicate (24 - length d) CHR ''0'' @ d"
  have "pad24 i = ''0b'' @ p"
    using len by (simp add: pad24_def bin_nonneg [OF assms(1)] Let_def d_def [symmetric] p_def)
  moreover have "length p = 24" using len by (simp add: p_def)
  moreover have "parse_digits 2 0 p = Some (nat i)"
    by (simp add: p_def parse_digits_append parse_zeros par)
  ultimately show ?thesis by blast
qed

lemma int_str_hex2: "0 \<le> v \<Longrightarrow> int_str (hex2 v) 16 = Inr v"
proof -
  assume v: "0 \<le> v"
  define d where "d = digits_str 16 (nat v)"
  have ne: "d \<noteq> []" unfolding d_def by (simp add: digits_str_nonempty)
  have par: "parse_digits 16 0 d = Some (nat v)" unfolding d_def by (simp add: parse_digits_str)
  have z: "parse_digits 16 0 (CHR ''0'' # d) = Some (nat v)"
    using par by (simp add: digit_val_def)
  show ?thesis
    using ne par z v by (simp add: hex2_def pad2_def hex_nonneg Let_def d_def [symmetric] int_str_def)
qed

lemma length_hex2: "0 \<le> v \<Longrightarrow> v < 256 \<Longrightarrow> length (hex2 v) = 2"
proof -
  assume v: "0 \<le> v" "v < 256"
  define d where "d = digits_str 16 (nat v)"
  have "nat v < 16 ^ 2" using v by simp
  then have "length d \<le> 2" unfolding d_def by (intro length_digits_str) simp_all
  moreover have "0 < length d" unfolding d_def by (simp add: digits_str_nonempty)
  ultimately have "length d = 1 \<or> length d = 2" by arith
  then show ?thesis
    using v by (auto simp: hex2_def pad2_def hex_nonneg Let_def d_def [symmetric])
qed

lemma fromhex_hex2: "0 \<le> v \<Longrightarrow> v < 256 \<Longrightarrow> fromhex (hex2 v) = Inr [word_of_int v]"
proof -
  assume v: "0 \<le> v" "v < 256"
  from length_hex2 [OF v] obtain c d where cd: "hex2 v = [c, d]"
    by (auto simp: length_Suc_conv numeral_2_eq_2)
  from int_str_hex2 [OF v(1)] obtain n where "parse_digits 16 0 [c, d] = Some n" "int n = v"
    unfolding cd int_str_def by (cases "parse_digits 16 0 [c, d]") auto
  then have "parse_digits 16 0 [c, d] = Some (nat v)" by auto
  then obtain hi lo where "digit_val c = Some hi" "digit_val d = Some lo" "hi < 16" "lo < 16"
    "hi * 16 + lo = nat v"
    by (auto split: option.splits if_splits)
  note hl = this
  have "v = int (16 * hi + lo)" using hl(5) v(1) by simp
  then have w: "(word_of_int v :: byte) = of_nat (16 * hi + lo)"
    by (simp del: of_nat_add of_nat_mult)
  show ?thesis
    unfolding cd w using hl(1-4) by simp
qed

lemma encode_int_bytes:
  assumes "0 \<le> i" and "i < 2 ^ 24"
  shows "encode_int i = Inr (hex2 (i div 65536), hex2 (i div 256 mod 256), hex2 (i mod 256))"
proof -
  from pad24_form [OF assms] obtain p where p: "pad24 i = ''0b'' @ p" "length p = 24"
    "parse_digits 2 0 p = Some (nat i)" by blast
  note s = parse_split3 [OF p(2,3)]
  have ne: "take 8 p \<noteq> []" "take 8 (drop 8 p) \<noteq> []" "take 8 (drop 16 p) \<noteq> []"
    using p(2) by auto
  have i: "int (nat i div 65536) = i div 65536" "int (nat i div 256 mod 256) = i div 256 mod 256"
    "int (nat i mod 256) = i mod 256"
    using assms(1) by (simp_all add: zdiv_int zmod_int)
  show ?thesis
    using ne s by (simp add: encode_int_def p(1) slice_def int_str_def i)
qed

lemma pos_digits_0: "pos_digits b 0 = []"
  by (subst pos_digits.simps) simp

lemma pos_digits_numeral:
  "pos_digits b (numeral k) =
     (if b < 2 then [] else pos_digits b (numeral k div b) @ [digit_char (numeral k mod b)])"
  by (subst pos_digits.simps) simp

lemma pos_digits_1:
  "pos_digits b (Suc 0) = (if b < 2 then [] else [digit_char 1])"
  by (subst pos_digits.simps) (simp add: pos_digits_0)

lemmas digits_eval = hex2_def pad2_def hex_def bin_def digits_str_def pos_digits_0 pos_digits_numeral
  pos_digits_1 digit_char_def


lemma fromhex_append:
  "even (length x) \<Longrightarrow>
   fromhex (x @ y) =
     (case fromhex x of
        Inl e \<Rightarrow> Inl e
      | Inr bs \<Rightarrow> (case fromhex y of Inl e \<Rightarrow> Inl e | Inr cs \<Rightarrow> Inr (bs @ cs)))"
  by (induction x rule: fromhex.induct) (auto split: option.splits sum.splits)

section \<open>The float remainder\<close>

lemma powi_2_Suc: "(2::real) powi (e + 1) = 2 powi e * 2"
  by (simp add: power_int_add)

lemma powi_2_pred: "(2::real) powi (e - 1) = 2 powi e / 2"
  by (simp add: power_int_diff)

lemma float_exponent_bounds:
  "0 < x \<Longrightarrow> 2 powi float_exponent x \<le> x \<and> x < 2 powi (float_exponent x + 1)"
proof (induction x rule: float_exponent.induct)
  case (1 x)
  show ?case
  proof (cases "2 \<le> x")
    case True
    with 1 have IH: "2 powi float_exponent (x / 2) \<le> x / 2 \<and> x / 2 < 2 powi (float_exponent (x / 2) + 1)"
      by simp
    have e: "float_exponent x = float_exponent (x / 2) + 1"
      using True 1(3) by (subst float_exponent.simps) simp
    show ?thesis using IH unfolding e powi_2_Suc by simp
  next
    case False
    show ?thesis
    proof (cases "x < 1")
      case True
      with 1 False have IH: "2 powi float_exponent (x * 2) \<le> x * 2 \<and> x * 2 < 2 powi (float_exponent (x * 2) + 1)"
        by simp
      have e: "float_exponent x = float_exponent (x * 2) - 1"
        using True False 1(3) by (subst float_exponent.simps) simp
      show ?thesis using IH unfolding e powi_2_Suc powi_2_pred by simp
    next
      case F2: False
      have e: "float_exponent x = 0"
        using F2 False 1(3) by (subst float_exponent.simps) simp
      show ?thesis unfolding e using F2 False by simp
    qed
  qed
qed


lemma float_exponent_less:
  assumes "0 < x" and "x < 2 powi (k + 1)"
  shows "float_exponent x \<le> k"
proof (rule ccontr)
  assume "\<not> float_exponent x \<le> k"
  then have "k + 1 \<le> float_exponent x" by simp
  then have "(2::real) powi (k + 1) \<le> 2 powi float_exponent x"
    by (intro power_int_increasing) simp_all
  with float_exponent_bounds [OF assms(1)] assms(2) show False by linarith
qed

lemma float_exponent_greater:
  assumes "0 < x" and "2 powi k \<le> x"
  shows "k \<le> float_exponent x"
proof (rule ccontr)
  assume "\<not> k \<le> float_exponent x"
  then have "float_exponent x + 1 \<le> k" by simp
  then have "(2::real) powi (float_exponent x + 1) \<le> 2 powi k"
    by (intro power_int_increasing) simp_all
  with float_exponent_bounds [OF assms(1)] assms(2) show False by linarith
qed


lemma round_half_even_ge: "of_int k \<le> x \<Longrightarrow> k \<le> round_half_even x"
proof -
  assume "of_int k \<le> x"
  then have "k \<le> \<lfloor>x\<rfloor>" by (simp add: le_floor_iff)
  then show ?thesis by (simp add: round_half_even_def Let_def)
qed

lemma round_half_even_le: "x \<le> of_int k \<Longrightarrow> round_half_even x \<le> k"
proof -
  assume x: "x \<le> of_int k"
  then have f: "\<lfloor>x\<rfloor> \<le> k" by (simp add: floor_le_iff)
  show ?thesis
  proof (cases "\<lfloor>x\<rfloor> = k")
    case True
    then have "of_int k \<le> x" by (metis of_int_floor_le)
    with x have "x = of_int k" by simp
    then show ?thesis by (simp add: round_half_even_def Let_def)
  next
    case False
    with f have "\<lfloor>x\<rfloor> + 1 \<le> k" by simp
    then show ?thesis by (simp add: round_half_even_def Let_def)
  qed
qed

lemma float_round_nonneg: "0 \<le> x \<Longrightarrow> 0 \<le> float_round x"
proof -
  assume x: "0 \<le> x"
  define u :: real where "u = 2 powi (max (float_exponent \<bar>x\<bar>) (- 1022) - 52)"
  have u: "0 < u" by (simp add: u_def)
  have "of_int 0 \<le> x / u" using x u by simp
  then have "0 \<le> round_half_even (x / u)" by (rule round_half_even_ge)
  then have "0 \<le> of_int (round_half_even (x / u)) * u" using u by simp
  then show ?thesis by (simp add: float_round_def Let_def u_def [symmetric])
qed

lemma float_round_le_360:
  assumes "0 < y" and "y \<le> 360"
  shows "float_round y \<le> 360"
proof -
  define k where "k = max (float_exponent \<bar>y\<bar>) (- 1022) - 52"
  define u :: real where "u = 2 powi k"
  have u: "0 < u" by (simp add: u_def)
  have "y < 2 powi (8 + 1)" using assms(2) by simp
  then have "float_exponent y \<le> 8" by (rule float_exponent_less [OF assms(1)])
  then have k: "k \<le> - 44" using assms(1) by (simp add: k_def)
  define K :: int where "K = 360 * 2 ^ nat (- k)"
  have "(2::real) powi (- k) * 2 powi k = 1"
    by (simp add: power_int_minus field_simps)
  moreover have "(2::real) powi (- k) = 2 ^ nat (- k)"
    using k by (simp add: power_int_def)
  ultimately have p: "2 ^ nat (- k) * (2::real) powi k = 1" by simp
  have "of_int K * u = 360 * (2 ^ nat (- k) * 2 powi k)" by (simp add: K_def u_def)
  then have Ku: "of_int K * u = 360" unfolding p by simp
  have "y / u \<le> of_int K"
    using assms(2) u Ku by (simp add: pos_divide_le_eq)
  then have "round_half_even (y / u) \<le> K" by (rule round_half_even_le)
  then have "of_int (round_half_even (y / u)) * u \<le> of_int K * u"
    using u by (simp add: mult_right_mono)
  then have "of_int (round_half_even (y / u)) * u \<le> 360" unfolding Ku .
  then show ?thesis using assms(1) by (simp add: float_round_def Let_def u_def k_def)
qed

lemma fmod_nonneg:
  assumes "0 \<le> x" and "0 < m"
  shows "fmod x m = x - m * of_int \<lfloor>x / m\<rfloor>" and "0 \<le> fmod x m" and "fmod x m < m"
proof -
  have q: "0 \<le> x / m" using assms by simp
  show e: "fmod x m = x - m * of_int \<lfloor>x / m\<rfloor>" using q by (simp add: fmod_def py_int_def)
  have "of_int \<lfloor>x / m\<rfloor> * m \<le> x"
    using assms(2) by (simp add: pos_le_divide_eq [symmetric])
  then show "0 \<le> fmod x m" unfolding e by (simp add: algebra_simps)
  have "x < (of_int \<lfloor>x / m\<rfloor> + 1) * m"
    using assms(2) floor_correct [of "x / m"] by (simp add: pos_divide_less_eq [symmetric])
  then show "fmod x m < m" unfolding e by (simp add: algebra_simps)
qed

lemma fmod_neg:
  assumes "x < 0" and "0 < m"
  shows "- m < fmod x m" and "fmod x m \<le> 0"
proof -
  have q: "x / m < 0" using assms by (simp add: divide_neg_pos)
  have e: "fmod x m = x - m * of_int \<lceil>x / m\<rceil>" using q by (simp add: fmod_def py_int_def)
  have "x \<le> of_int \<lceil>x / m\<rceil> * m"
    using assms(2) by (simp add: pos_divide_le_eq [symmetric])
  then show "fmod x m \<le> 0" unfolding e by (simp add: algebra_simps)
  have "(of_int \<lceil>x / m\<rceil> - 1) * m < x"
    using assms(2) ceiling_correct [of "x / m"] by (simp add: pos_less_divide_eq [symmetric])
  then show "- m < fmod x m" unfolding e by (simp add: algebra_simps)
qed

lemma py_fmod_nonneg:
  assumes "0 \<le> x" and "0 < m"
  shows "py_fmod x m = x - m * of_int \<lfloor>x / m\<rfloor>"
  using fmod_nonneg [OF assms] assms(2) by (simp add: py_fmod_def Let_def)

lemma py_fmod_range: "0 \<le> x \<Longrightarrow> 0 < m \<Longrightarrow> 0 \<le> py_fmod x m \<and> py_fmod x m < m"
  using fmod_nonneg [of x m] by (simp add: py_fmod_def Let_def)

lemma py_fmod_id: "0 \<le> x \<Longrightarrow> x < m \<Longrightarrow> py_fmod x m = x"
proof -
  assume a: "0 \<le> x" "x < m"
  then have "\<lfloor>x / m\<rfloor> = 0" by (simp add: floor_eq_iff)
  then show ?thesis using a by (simp add: py_fmod_nonneg)
qed

lemma py_fmod_360_bounds: "0 \<le> py_fmod x 360 \<and> py_fmod x 360 \<le> 360"
proof (cases "0 \<le> x")
  case True
  then show ?thesis using py_fmod_range [of x 360] by simp
next
  case False
  then have x: "x < 0" by simp
  note r = fmod_neg [OF x, of 360, simplified]
  show ?thesis
  proof (cases "fmod x 360 = 0")
    case True
    then show ?thesis by (simp add: py_fmod_def)
  next
    case F: False
    with r have n: "fmod x 360 < 0" by simp
    have y: "0 < fmod x 360 + 360" "fmod x 360 + 360 \<le> 360" using r n by simp_all
    have "py_fmod x 360 = float_round (fmod x 360 + 360)"
      using F n by (simp add: py_fmod_def Let_def)
    then show ?thesis
      using float_round_nonneg [of "fmod x 360 + 360"] float_round_le_360 [OF y] y by simp
  qed
qed


lemma round_half_even_of_int: "round_half_even (of_int m) = m"
  by (simp add: round_half_even_def)

lemma float_round_of_int:
  assumes "0 < k" and "k < 2 ^ 53"
  shows "float_round (of_int k) = of_int k"
proof -
  define x where "x = real_of_int k"
  have x: "0 < x" "1 \<le> x" "x < 2 ^ 53" using assms by (simp_all add: x_def)
  define e where "e = float_exponent x"
  have "2 powi 0 \<le> x" using x(2) by simp
  then have e0: "0 \<le> e" unfolding e_def by (rule float_exponent_greater [OF x(1)])
  have "x < 2 powi (52 + 1)" using x(3) by simp
  then have e52: "e \<le> 52" unfolding e_def by (rule float_exponent_less [OF x(1)])
  define j where "j = nat (52 - e)"
  have m: "max e (- 1022) - 52 = - int j" using e0 e52 by (simp add: j_def)
  define u :: real where "u = 2 powi (- int j)"
  have u: "u = 1 / 2 ^ j" by (simp add: u_def power_int_minus divide_inverse)
  have d: "x / u = of_int (k * 2 ^ j)" by (simp add: u x_def)
  have "of_int (round_half_even (x / u)) * u = x"
    unfolding d round_half_even_of_int by (simp add: u x_def)
  then have "float_round x = x"
    using x(1) by (simp add: float_round_def Let_def m [unfolded e_def] u_def)
  then show ?thesis unfolding x_def .
qed

lemma py_fmod_examples:
  "py_fmod (- 21) 24 = 3" "py_fmod (- 45) 180 = 135" "py_fmod 21 24 = 21" "py_fmod 150 360 = 150"
  "py_fmod 30 360 = 30"
proof -
  have c: "\<lceil>- 21 / 24 :: real\<rceil> = 0" "\<lceil>- 45 / 180 :: real\<rceil> = 0"
    by (rule ceiling_unique; simp)+
  have f: "fmod (- 21) 24 = - 21" "fmod (- 45) 180 = - 45"
    using c by (simp_all add: fmod_def py_int_def)
  show "py_fmod (- 21) 24 = 3"
    unfolding py_fmod_def Let_def f using float_round_of_int [of 3] by simp
  show "py_fmod (- 45) 180 = 135"
    unfolding py_fmod_def Let_def f using float_round_of_int [of 135] by simp
  show "py_fmod 21 24 = 21" "py_fmod 150 360 = 150" "py_fmod 30 360 = 30"
    by (simp_all add: py_fmod_id)
qed

section \<open>The codec\<close>

lemma angle_int_range:
  assumes "0 \<le> a"
  shows "0 \<le> \<lfloor>py_fmod a 360 / 360 * 2 ^ 24\<rfloor>"
    and "\<lfloor>py_fmod a 360 / 360 * 2 ^ 24\<rfloor> < 2 ^ 24"
    and "py_int (py_fmod a 360 / 360 * 2 ^ 24) = \<lfloor>py_fmod a 360 / 360 * 2 ^ 24\<rfloor>"
proof -
  define y where "y = py_fmod a 360 / 360 * 2 ^ 24"
  have r: "0 \<le> py_fmod a 360" "py_fmod a 360 < 360"
    using py_fmod_range [OF assms, of 360] by simp_all
  then have y: "0 \<le> y" "y < 2 ^ 24"
    by (simp_all add: y_def)
  have "\<lfloor>y\<rfloor> < 2 ^ 24"
    using y(2) by (simp add: floor_less_iff)
  then show "\<lfloor>py_fmod a 360 / 360 * 2 ^ 24\<rfloor> < 2 ^ 24" unfolding y_def .
  have "0 \<le> \<lfloor>y\<rfloor>" using y(1) by simp
  then show "0 \<le> \<lfloor>py_fmod a 360 / 360 * 2 ^ 24\<rfloor>" unfolding y_def .
  have "py_int y = \<lfloor>y\<rfloor>" using y(1) by (simp add: py_int_def)
  then show "py_int (py_fmod a 360 / 360 * 2 ^ 24) = \<lfloor>py_fmod a 360 / 360 * 2 ^ 24\<rfloor>"
    unfolding y_def .
qed

lemma angle_int_bounds:
  shows "0 \<le> py_int (py_fmod a 360 / 360 * 2 ^ 24)"
    and "py_int (py_fmod a 360 / 360 * 2 ^ 24) \<le> 2 ^ 24"
proof -
  define y where "y = py_fmod a 360 / 360 * 2 ^ 24"
  have r: "0 \<le> py_fmod a 360" "py_fmod a 360 \<le> 360"
    using py_fmod_360_bounds [of a] by simp_all
  then have y: "0 \<le> y" "y \<le> 2 ^ 24"
    by (simp_all add: y_def)
  have i: "py_int y = \<lfloor>y\<rfloor>" using y(1) by (simp add: py_int_def)
  have "0 \<le> py_int y" unfolding i using y(1) by simp
  then show "0 \<le> py_int (py_fmod a 360 / 360 * 2 ^ 24)" unfolding y_def .
  have "\<lfloor>y\<rfloor> \<le> 2 ^ 24" using y(2) by (simp add: floor_le_iff)
  then have "py_int y \<le> 2 ^ 24" unfolding i .
  then show "py_int (py_fmod a 360 / 360 * 2 ^ 24) \<le> 2 ^ 24" unfolding y_def .
qed

lemma encodeAngle_eq:
  assumes "0 \<le> a"
  shows "encodeAngle a =
     (let n = \<lfloor>py_fmod a 360 / 360 * 2 ^ 24\<rfloor>
      in Inr (hex2 (n div 65536), hex2 (n div 256 mod 256), hex2 (n mod 256)))"
proof -
  define n where "n = \<lfloor>py_fmod a 360 / 360 * 2 ^ 24\<rfloor>"
  have n: "0 \<le> n" "n < 2 ^ 24" "py_int (py_fmod a 360 / 360 * 2 ^ 24) = n"
    unfolding n_def by (rule angle_int_range [OF assms])+
  have "encodeAngle a = encode_int n"
    unfolding encodeAngle_def Let_def n(3) ..
  also have "\<dots> = Inr (hex2 (n div 65536), hex2 (n div 256 mod 256), hex2 (n mod 256))"
    using n(1,2) by (rule encode_int_bytes)
  finally show ?thesis unfolding n_def Let_def .
qed

lemma encode_int_full_turn: "encode_int 16777216 = Inr (''80'', ''00'', ''00'')"
  by (simp add: encode_int_def pad24_def Let_def slice_def int_str_def digit_val_def digits_eval)


lemma fromhex_hex2_3:
  assumes "0 \<le> a" "a < 256" "0 \<le> b" "b < 256" "0 \<le> c" "c < 256"
  shows "fromhex (hex2 a @ hex2 b @ hex2 c) = Inr [word_of_int a, word_of_int b, word_of_int c]"
  using assms by (simp add: fromhex_append length_hex2 fromhex_hex2)

lemma three_bytes:
  fixes n :: int
  assumes "0 \<le> n" "n < 2 ^ 24"
  shows "0 \<le> n div 65536" "n div 65536 < 256" "0 \<le> n div 256 mod 256" "n div 256 mod 256 < 256"
    "0 \<le> n mod 256" "n mod 256 < 256"
    "2 ^ 16 * (n div 65536) + 2 ^ 8 * (n div 256 mod 256) + n mod 256 = n"
proof -
  define m where "m = n div 256"
  have d: "n div 65536 = m div 256"
    unfolding m_def by (simp add: zdiv_zmult2_eq [symmetric])
  have n: "n = 256 * m + n mod 256" unfolding m_def by simp
  have m: "m = 256 * (m div 256) + m mod 256" by simp
  show "0 \<le> n div 65536" using assms(1) by (simp add: pos_imp_zdiv_nonneg_iff)
  have "n div 65536 \<le> 16777215 div 65536" using assms(2) by (intro zdiv_mono1) simp_all
  then show "n div 65536 < 256" by simp
  show "0 \<le> n div 256 mod 256" by simp
  show "n div 256 mod 256 < 256" by simp
  show "0 \<le> n mod 256" by simp
  show "n mod 256 < 256" by simp
  define q r where "q = m div 256" and "r = m mod 256"
  have mq: "m = 256 * q + r" unfolding q_def r_def by simp
  have "65536 * q + 256 * r + n mod 256 = 256 * m + n mod 256"
    unfolding mq by simp
  also have "\<dots> = n" using n by simp
  finally show "2 ^ 16 * (n div 65536) + 2 ^ 8 * (n div 256 mod 256) + n mod 256 = n"
    unfolding d m_def [symmetric] q_def r_def by simp
qed

lemma encodeAngle_total:
  "\<exists>h1 h2 h3 bs. encodeAngle a = Inr (h1, h2, h3) \<and> length h1 = 2 \<and> length h2 = 2 \<and>
     length h3 = 2 \<and> fromhex (h1 @ h2 @ h3) = Inr bs"
proof -
  define n where "n = py_int (py_fmod a 360 / 360 * 2 ^ 24)"
  have n: "0 \<le> n" "n \<le> 2 ^ 24" unfolding n_def by (rule angle_int_bounds)+
  have e: "encodeAngle a = encode_int n" by (simp add: encodeAngle_def Let_def n_def)
  show ?thesis
  proof (cases "n < 2 ^ 24")
    case True
    note b = three_bytes(1-6) [OF n(1) True]
    have "encodeAngle a = Inr (hex2 (n div 65536), hex2 (n div 256 mod 256), hex2 (n mod 256))"
      unfolding e using n(1) True by (rule encode_int_bytes)
    moreover have "length (hex2 (n div 65536)) = 2" "length (hex2 (n div 256 mod 256)) = 2"
      "length (hex2 (n mod 256)) = 2"
      using b by (simp_all add: length_hex2)
    moreover have "fromhex (hex2 (n div 65536) @ hex2 (n div 256 mod 256) @ hex2 (n mod 256)) =
        Inr [word_of_int (n div 65536), word_of_int (n div 256 mod 256), word_of_int (n mod 256)]"
      using b by (simp add: fromhex_hex2_3)
    ultimately show ?thesis by blast
  next
    case False
    with n(2) have "n = 16777216" by simp
    then have "encodeAngle a = Inr (''80'', ''00'', ''00'')"
      unfolding e by (simp add: encode_int_full_turn)
    moreover have "fromhex (''80'' @ ''00'' @ ''00'') = Inr [0x80, 0x00, 0x00]"
      by (simp add: digit_val_def)
    ultimately show ?thesis by force
  qed
qed





lemma decode_hex2:
  assumes "0 \<le> a" "0 \<le> b" "0 \<le> c"
  shows "decodeAngle (hex2 a) (hex2 b) (hex2 c) =
           Inr ((real_of_int (2 ^ 16 * a + 2 ^ 8 * b + c) / 2 ^ 24) * 360)"
  using assms by (simp add: decodeAngle_def int_str_hex2)

lemma decode_encode:
  assumes "0 \<le> a"
  shows "\<exists>h1 h2 h3. encodeAngle a = Inr (h1, h2, h3) \<and>
      decodeAngle h1 h2 h3 = Inr ((real_of_int \<lfloor>py_fmod a 360 / 360 * 2 ^ 24\<rfloor> / 2 ^ 24) * 360)"
proof -
  define n where "n = \<lfloor>py_fmod a 360 / 360 * 2 ^ 24\<rfloor>"
  have n: "0 \<le> n" "n < 2 ^ 24" unfolding n_def by (rule angle_int_range [OF assms])+
  have e: "encodeAngle a = Inr (hex2 (n div 65536), hex2 (n div 256 mod 256), hex2 (n mod 256))"
    unfolding n_def using encodeAngle_eq [OF assms] by (simp add: Let_def)
  have "decodeAngle (hex2 (n div 65536)) (hex2 (n div 256 mod 256)) (hex2 (n mod 256)) =
      Inr ((real_of_int n / 2 ^ 24) * 360)"
    using three_bytes [OF n] by (simp only: decode_hex2)
  with e show ?thesis unfolding n_def by blast
qed

text \<open>
  Claim C2: for every angle \<open>a\<close> in \<open>[0, 360)\<close>, decoding the three strings that
  \<^verbatim>\<open>encodeAngle\<close> returns for \<open>a\<close> gives a value within one quantisation step,
  \<open>360 / 2^24\<close> degrees, of \<open>a\<close>.
\<close>

theorem decode_encode_within_step:
  assumes "0 \<le> a" and "a < 360"
  shows "\<exists>h1 h2 h3 d. encodeAngle a = Inr (h1, h2, h3) \<and> decodeAngle h1 h2 h3 = Inr d \<and>
           \<bar>d - a\<bar> \<le> 360 / 2 ^ 24"
proof -
  define y where "y = a / 360 * 2 ^ 24"
  have id: "py_fmod a 360 = a" using assms by (rule py_fmod_id)
  from decode_encode [OF assms(1)] obtain h1 h2 h3 where h: "encodeAngle a = Inr (h1, h2, h3)"
    "decodeAngle h1 h2 h3 = Inr ((real_of_int \<lfloor>y\<rfloor> / 2 ^ 24) * 360)"
    unfolding id y_def by blast
  have a: "a = y / 2 ^ 24 * 360" by (simp add: y_def)
  have "real_of_int \<lfloor>y\<rfloor> \<le> y" "y < real_of_int \<lfloor>y\<rfloor> + 1" by linarith+
  then have "\<bar>real_of_int \<lfloor>y\<rfloor> - y\<bar> \<le> 1" by linarith
  then have "\<bar>real_of_int \<lfloor>y\<rfloor> - y\<bar> * (360 / 2 ^ 24) \<le> 1 * (360 / 2 ^ 24)"
    by (rule mult_right_mono) simp
  moreover have "(real_of_int \<lfloor>y\<rfloor> / 2 ^ 24) * 360 - a = (real_of_int \<lfloor>y\<rfloor> - y) * (360 / 2 ^ 24)"
    by (subst a) (simp add: field_simps)
  ultimately have "\<bar>(real_of_int \<lfloor>y\<rfloor> / 2 ^ 24) * 360 - a\<bar> \<le> 360 / 2 ^ 24"
    by (simp add: abs_mult)
  with h show ?thesis by blast
qed

theorem decode_encode_within_step_witness:
  "(0::real) \<le> 90 \<and> (90::real) < 360 \<and>
   (\<exists>h1 h2 h3 d. encodeAngle 90 = Inr (h1, h2, h3) \<and> decodeAngle h1 h2 h3 = Inr d \<and>
      \<bar>d - 90\<bar> \<le> 360 / 2 ^ 24)"
  using decode_encode_within_step [of 90] by simp

section \<open>Transactions and motor-angle reads\<close>

lemma after_talk_fields:
  "identity (after_talk e bs s) = (identity s + 1) mod 10000"
  "RS232_QUEUE (after_talk e bs s) = RS232_QUEUE s"
  "event_set (after_talk e bs s) = True"
  "wire (after_talk e bs s) = wire s @ [(bs, replies e (length (wire s)))]"
  "motion_status (after_talk e bs s) = motion_status s"
  "GOTO_RUNNING (after_talk e bs s) = GOTO_RUNNING s"
  "GOTO_IN_STOP (after_talk e bs s) = GOTO_IN_STOP s"
  "ra (after_talk e bs s) = ra s"
  "dec (after_talk e bs s) = dec s"
  "mot1 (after_talk e bs s) = mot1 s"
  "mot2 (after_talk e bs s) = mot2 s"
  "tracking_rate_mot1 (after_talk e bs s) = tracking_rate_mot1 s"
  "tracking_rate_mot2 (after_talk e bs s) = tracking_rate_mot2 s"
  "logged (after_talk e bs s) = logged s @ [(INFO, ''Length of RS232 QUEUE: {}'')]"
  by (simp_all add: after_talk_def)

lemma RS232_Talk_idle:
  assumes "fromhex c = Inr bs" and "RS232_QUEUE s = []"
  shows "RS232_Talk e c s = Some (Returns (replies e (length (wire s))) (after_talk e bs s))"
  using assms
  by (simp add: RS232_Talk_def enqueue_def log_msg_def py_index_def finish_talk_def release_def
      py_pop0_def Let_def after_talk_def)

lemma RS232_Talk_bad_frame:
  "fromhex c = Inl err \<Longrightarrow> RS232_Talk e c s = Some (Raises err s)"
  by (simp add: RS232_Talk_def)

lemma fromhex_GET_MOT1_COMMAND:
  "fromhex GET_MOT1_COMMAND = Inr [0x50, 0x01, 0x10, 0x01, 0x00, 0x00, 0x00, 0x03]"
  by (simp add: GET_MOT1_COMMAND_def digit_val_def)

lemma fromhex_GET_MOT2_COMMAND:
  "fromhex GET_MOT2_COMMAND = Inr [0x50, 0x01, 0x11, 0x01, 0x00, 0x00, 0x00, 0x03]"
  by (simp add: GET_MOT2_COMMAND_def digit_val_def)

lemma decode_reply_angle: "3 \<le> length data \<Longrightarrow> decode_reply data = Inr (reply_angle data)"
  by (auto simp add: decode_reply_def reply_angle_def py_item_def decode_hex2)

lemma GET_MOT1_idle:
  assumes "RS232_QUEUE s = []"
  shows "GET_MOT1 e s =
    (let data = replies e (length (wire s));
         s1 = after_talk e [0x50, 0x01, 0x10, 0x01, 0x00, 0x00, 0x00, 0x03] s
     in if length data = 4
        then Some (Returns (reply_angle data)
               ((log_msg INFO ''MOT1 data is: {}, {}, {}: {}'' s1)\<lparr>mot1 := reply_angle data\<rparr>))
        else Some (Returns (mot1 s)
               (log_msg WARNING
                  ''RS232 reading feed incorrect answer in GET_MOT1, use last read answer instead'' s1)))"
  by (simp add: GET_MOT1_def RS232_Talk_idle [OF fromhex_GET_MOT1_COMMAND assms] andThen_def
      Let_def lift_def decode_reply_angle log_msg_def after_talk_fields)

lemma GET_MOT2_idle:
  assumes "RS232_QUEUE s = []"
  shows "GET_MOT2 e s =
    (let data = replies e (length (wire s));
         s1 = after_talk e [0x50, 0x01, 0x11, 0x01, 0x00, 0x00, 0x00, 0x03] s
     in if length data = 4
        then Some (Returns (reply_angle data)
               ((log_msg INFO ''MOT2 data is: {}, {}, {}: {}'' s1)\<lparr>mot2 := reply_angle data\<rparr>))
        else Some (Returns (mot2 s)
               (log_msg WARNING
                  ''RS232 reading feed incorrect answer in GET_MOT2, use last read answer instead'' s1)))"
  by (simp add: GET_MOT2_def RS232_Talk_idle [OF fromhex_GET_MOT2_COMMAND assms] andThen_def
      Let_def lift_def decode_reply_angle log_msg_def after_talk_fields)

text \<open>
  Claim C6, as the code has it: the length that \<^verbatim>\<open>GET_MOT1\<close> and \<^verbatim>\<open>GET_MOT2\<close> expect is 4
  bytes, not 3. When the queue is idle, a reply of any other length makes the read return
  the cached angle, log a warning and leave both cached angles unchanged, without raising;
  a reply of 4 bytes is decoded from its first three bytes and replaces the cached angle
  of that axis only.
\<close>

theorem GET_MOT_reply_length:
  assumes "RS232_QUEUE s = []"
  shows "let data = replies e (length (wire s)) in
    (length data \<noteq> 4 \<longrightarrow>
       returned (GET_MOT1 e s) = Some (mot1 s) \<and> raised (GET_MOT1 e s) = None \<and>
       map_option mot1 (state_after (GET_MOT1 e s)) = Some (mot1 s) \<and>
       map_option mot2 (state_after (GET_MOT1 e s)) = Some (mot2 s) \<and>
       map_option (\<lambda>s'. fst (last (logged s'))) (state_after (GET_MOT1 e s)) = Some WARNING \<and>
       returned (GET_MOT2 e s) = Some (mot2 s) \<and> raised (GET_MOT2 e s) = None \<and>
       map_option mot1 (state_after (GET_MOT2 e s)) = Some (mot1 s) \<and>
       map_option mot2 (state_after (GET_MOT2 e s)) = Some (mot2 s) \<and>
       map_option (\<lambda>s'. fst (last (logged s'))) (state_after (GET_MOT2 e s)) = Some WARNING) \<and>
    (length data = 4 \<longrightarrow>
       returned (GET_MOT1 e s) = Some (reply_angle data) \<and>
       map_option mot1 (state_after (GET_MOT1 e s)) = Some (reply_angle data) \<and>
       map_option mot2 (state_after (GET_MOT1 e s)) = Some (mot2 s) \<and>
       returned (GET_MOT2 e s) = Some (reply_angle data) \<and>
       map_option mot2 (state_after (GET_MOT2 e s)) = Some (reply_angle data) \<and>
       map_option mot1 (state_after (GET_MOT2 e s)) = Some (mot1 s))"
  unfolding GET_MOT1_idle [OF assms] GET_MOT2_idle [OF assms] Let_def
  by (simp add: returned_def raised_def state_after_def log_msg_def after_talk_fields)

theorem GET_MOT_reply_length_witness:
  "RS232_QUEUE initial_mount = [] \<and>
   returned (GET_MOT1 (const_env [0x40, 0, 0]) initial_mount) = Some 90 \<and>
   returned (GET_MOT1 (const_env [0x40, 0, 0, 0x23]) initial_mount) = Some 90 \<and>
   returned (GET_MOT2 (const_env [0x80, 0, 0, 0x23]) initial_mount) = Some 180 \<and>
   map_option mot2 (state_after (GET_MOT2 (const_env [0x80, 0, 0, 0x23]) initial_mount)) = Some 180"
proof -
  have q: "RS232_QUEUE initial_mount = []" by (simp add: initial_mount_def)
  show ?thesis
    using GET_MOT_reply_length [OF q, of "const_env [0x40, 0, 0]"]
      GET_MOT_reply_length [OF q, of "const_env [0x40, 0, 0, 0x23]"]
      GET_MOT_reply_length [OF q, of "const_env [0x80, 0, 0, 0x23]"]
    by (simp add: const_env_def initial_mount_def reply_angle_def Let_def)
qed

text \<open>
  Claim C6 as stated (expected length 3) fails both ways on a mount whose cached angles
  are 90: a reply of 4 bytes, whose length is not 3, is decoded and overwrites the cached
  angle, and a reply of 3 bytes is not decoded.
\<close>

theorem GET_MOT_three_bytes_counterexample:
  "returned (GET_MOT1 (const_env [0x80, 0, 0, 0x23]) initial_mount) = Some 180 \<and>
   map_option mot1 (state_after (GET_MOT1 (const_env [0x80, 0, 0, 0x23]) initial_mount)) = Some 180 \<and>
   mot1 initial_mount = 90 \<and>
   returned (GET_MOT1 (const_env [0x80, 0, 0]) initial_mount) = Some 90 \<and>
   map_option mot1 (state_after (GET_MOT1 (const_env [0x80, 0, 0]) initial_mount)) = Some 90"
proof -
  have q: "RS232_QUEUE initial_mount = []" by (simp add: initial_mount_def)
  show ?thesis
    unfolding GET_MOT1_idle [OF q] Let_def
    by (simp add: returned_def state_after_def log_msg_def after_talk_fields const_env_def
        initial_mount_def reply_angle_def)
qed

section \<open>The destination of a GOTO, and float rates\<close>

lemma radec_targets_spec: "radec_targets lst ra_h dec_d = spec_targets lst ra_h dec_d"
  by (simp add: radec_targets_def spec_targets_def HourAngle_def normalizeSigned_def Let_def
      zero_le_sgn_iff)

text \<open>
  Claim C7: for every right ascension, declination and local sidereal time, the targets
  that \<^verbatim>\<open>_move_radec\<close> computes and hands to \<^verbatim>\<open>__move\<close> are those of the specification: the
  hour angle is the signed normalisation of \<open>(LST - RA) mod 24\<close> hours times 15, motor2 goes
  to \<open>180 - Dec\<close> or \<open>Dec\<close> by its sign, mod 360, and motor1 to the hour angle or to the hour
  angle mod 180. The method takes the right ascension in degrees; the \<open>RA\<close> of the formula
  is that angle divided by 15 and reduced mod 24, in hours. For instance, at \<open>LST = 1\<close>,
  \<open>RA = 22\<close> and \<open>Dec = 30\<close> the hour angle is 45 degrees and the targets are 45 and 150;
  at \<open>LST = 22\<close>, \<open>RA = 1\<close> it is \<open>-45\<close> degrees and the targets are 135 and 30.
\<close>

theorem move_radec_targets:
  "radec_targets lst ra_h dec_d = spec_targets lst ra_h dec_d \<and>
   move_radec e lst ra_deg dec_d s =
     move e (fst (spec_targets lst (py_fmod (ra_deg / 15) 24) dec_d))
       (snd (spec_targets lst (py_fmod (ra_deg / 15) 24) dec_d))
       (s\<lparr>motion_status := SLEWING, GOTO_RUNNING := True,
          ra := py_fmod (ra_deg / 15) 24, dec := dec_d\<rparr>) \<and>
   HourAngle 1 22 = 45 \<and> radec_targets 1 22 30 = (45, 150) \<and>
   HourAngle 22 1 = - 45 \<and> radec_targets 22 1 30 = (135, 30)"
proof -
  have h: "HourAngle 1 22 = 45" "HourAngle 22 1 = - 45"
    by (simp_all add: HourAngle_def Let_def py_fmod_examples)
  have t: "radec_targets 1 22 30 = (45, 150)" "radec_targets 22 1 30 = (135, 30)"
    unfolding radec_targets_def h Let_def by (simp_all add: py_fmod_examples)
  show ?thesis
    using h t by (simp add: move_radec_def radec_targets_spec Let_def split_beta)
qed

text \<open>
  Claim C10: whenever a rate is a float, \<^verbatim>\<open>tracking\<close> raises \<open>TypeError\<close> at the \<^verbatim>\<open>hex\<close> of
  the floor-divided high part, which is a float: at the first axis if its rate is a float,
  at the second if only that one is. By then the status and both cached rates have been
  overwritten, and nothing has been written to the wire.
\<close>

theorem tracking_float_raises:
  "raised (tracking e (PyFloat x) r2 s) = Some TypeError \<and>
   state_after (tracking e (PyFloat x) r2 s) =
     Some (s\<lparr>motion_status := TRACKING, tracking_rate_mot1 := PyFloat x,
             tracking_rate_mot2 := r2\<rparr>) \<and>
   frames_sent s (tracking e (PyFloat x) r2 s) = Some [] \<and>
   raised (tracking e (PyInt i) (PyFloat y) s) = Some TypeError \<and>
   state_after (tracking e (PyInt i) (PyFloat y) s) =
     Some (s\<lparr>motion_status := TRACKING, tracking_rate_mot1 := PyInt i,
             tracking_rate_mot2 := PyFloat y\<rparr>) \<and>
   frames_sent s (tracking e (PyInt i) (PyFloat y) s) = Some []"
  by (simp add: tracking_def Let_def andThen_def lift_def raised_def state_after_def
      frames_sent_def)

section \<open>Tracking frames and the release step\<close>








lemma release_cases:
  "RS232_QUEUE s = [] \<Longrightarrow>
     release s = (log_msg LOGERROR ''SOME RESOURCE ACCESS ERROR OCURRED!'' s)\<lparr>motion_status := ERROR\<rparr>"
  "RS232_QUEUE s = x # rest \<Longrightarrow> release s = s\<lparr>RS232_QUEUE := rest\<rparr>"
  by (simp_all add: release_def py_pop0_def)

text \<open>
  Claim C9, as the code has it: the release step of \<^verbatim>\<open>RS232_Talk\<close> never raises. Removing
  from an empty queue is caught by the bare \<^verbatim>\<open>except\<close>: an error is logged, the motion
  status becomes \<open>ERROR\<close>, and the call goes on to set the event and return its reply. On a
  queue that is not empty the head is removed whichever ticket it is; the caller's own
  ticket is not looked at.
\<close>

theorem release_never_raises:
  "raised (Some (finish_talk data s)) = None \<and>
   returned (Some (finish_talk data s)) = Some data \<and>
   state_after (Some (finish_talk data s)) = Some ((release s)\<lparr>event_set := True\<rparr>) \<and>
   (RS232_QUEUE s = [] \<longrightarrow>
      RS232_QUEUE (release s) = [] \<and> motion_status (release s) = ERROR \<and>
      logged (release s) = logged s @ [(LOGERROR, ''SOME RESOURCE ACCESS ERROR OCURRED!'')]) \<and>
   (RS232_QUEUE s \<noteq> [] \<longrightarrow>
      RS232_QUEUE (release s) = tl (RS232_QUEUE s) \<and> motion_status (release s) = motion_status s \<and>
      logged (release s) = logged s)"
proof (cases "RS232_QUEUE s")
  case Nil
  then show ?thesis
    by (simp add: release_cases(1) finish_talk_def raised_def returned_def state_after_def
        log_msg_def)
next
  case (Cons x rest)
  then show ?thesis
    by (simp add: release_cases(2) finish_talk_def raised_def returned_def state_after_def)
qed

theorem release_never_raises_witness:
  "RS232_QUEUE initial_mount = [] \<and>
   RS232_QUEUE (initial_mount\<lparr>RS232_QUEUE := [7, 3]\<rparr>) \<noteq> [] \<and>
   raised (Some (finish_talk [] initial_mount)) = None \<and>
   motion_status (release initial_mount) = ERROR \<and>
   raised (Some (finish_talk [] (initial_mount\<lparr>RS232_QUEUE := [7, 3]\<rparr>))) = None \<and>
   RS232_QUEUE (release (initial_mount\<lparr>RS232_QUEUE := [7, 3]\<rparr>)) = [3]"
  using release_never_raises [of "[]" initial_mount]
    release_never_raises [of "[]" "initial_mount\<lparr>RS232_QUEUE := [7, 3]\<rparr>"]
  by (simp add: initial_mount_def)

text \<open>
  Claim C9 as stated fails on the class as declared, whose queue is empty: the release
  step returns the reply, with the error logged and the status set, instead of raising.
  With tickets 7 and 3 queued it returns after removing ticket 7, the caller's or not.
\<close>

theorem release_swallows_counterexample:
  "finish_talk [0xFF, 0x00] initial_mount =
     Returns [0xFF, 0x00]
       (initial_mount\<lparr>logged := [(LOGERROR, ''SOME RESOURCE ACCESS ERROR OCURRED!'')],
          motion_status := ERROR, event_set := True\<rparr>) \<and>
   finish_talk [0xFF, 0x00] (initial_mount\<lparr>RS232_QUEUE := [7, 3]\<rparr>) =
     Returns [0xFF, 0x00] (initial_mount\<lparr>RS232_QUEUE := [3], event_set := True\<rparr>)"
  by (simp add: finish_talk_def release_def py_pop0_def log_msg_def initial_mount_def)

section \<open>The polling loop\<close>

lemma hex_255_iff: "hex (uint (b :: byte)) = hex 255 \<longleftrightarrow> b = 0xFF"
proof
  assume "hex (uint b) = hex 255"
  then have "digits_str 16 (nat (uint b)) = digits_str 16 255"
    by (simp add: hex_nonneg)
  then have "parse_digits 16 0 (digits_str 16 (nat (uint b))) = parse_digits 16 0 (digits_str 16 255)"
    by simp
  then have "nat (uint b) = 255" by (simp add: parse_digits_str)
  then have "unat b = unat (0xFF :: byte)" by simp
  then show "b = 0xFF" by (simp only: word_unat_eq_iff)
next
  assume "b = 0xFF"
  then show "hex (uint b) = hex 255" by simp
qed

lemma fromhex_polls:
  "fromhex RA_GOTO_RUN = Inr RA_POLL" "fromhex DEC_GOTO_RUN = Inr DEC_POLL"
  "RA_POLL = [0x50, 0x01, 0x10, 0x13, 0x00, 0x00, 0x00, 0x01]"
  "DEC_POLL = [0x50, 0x01, 0x11, 0x13, 0x00, 0x00, 0x00, 0x01]"
  by (simp_all add: RA_POLL_def DEC_POLL_def frame_bytes_def RA_GOTO_RUN_def DEC_GOTO_RUN_def
      digit_val_def)


lemma log_msg_fields:
  "wire (log_msg l m s) = wire s" "RS232_QUEUE (log_msg l m s) = RS232_QUEUE s"
  "motion_status (log_msg l m s) = motion_status s" "GOTO_RUNNING (log_msg l m s) = GOTO_RUNNING s"
  by (simp_all add: log_msg_def)

lemma poll_axis_running: "poll_axis e c True s = Some (Returns True s)"
  by (simp add: poll_axis_def)

lemma poll_axis_idle:
  assumes "fromhex c = Inr bs" and "RS232_QUEUE s = []"
    and "2 \<le> length (replies e (length (wire s)))"
  shows "poll_axis e c False s =
    Some (Returns (hd (replies e (length (wire s))) = 0xFF) (after_talk e bs s))"
proof -
  from assms(3) obtain b0 b1 rest where r: "replies e (length (wire s)) = b0 # b1 # rest"
    by (auto simp: Suc_le_length_iff numeral_2_eq_2)
  show ?thesis
    by (simp add: poll_axis_def RS232_Talk_idle [OF assms(1,2)] andThen_def r hex_255_iff)
qed


lemma poll_loop_aborted:
  "abort_set e (length (wire s)) \<Longrightarrow> poll_loop e test ra_run dec_run s = Some (Returns () s)"
  by (subst poll_loop.simps) simp

lemma poll_loop_step:
  assumes q: "RS232_QUEUE s = []" and len: "\<forall>k. 2 \<le> length (replies e k)"
    and ab: "\<not> abort_set e (length (wire s))"
  shows "poll_loop e False ra_run dec_run s =
    (let s1 = (if ra_run then s else after_talk e RA_POLL s);
         ra' = (ra_run \<or> hd (replies e (length (wire s))) = 0xFF);
         s2 = (if dec_run then s1 else after_talk e DEC_POLL s1);
         dec' = (dec_run \<or> hd (replies e (length (wire s1))) = 0xFF)
     in poll_loop e (dec' \<and> ra') ra' dec' s2)"
proof -
  have l: "\<And>k. 2 \<le> length (replies e k)" using len by blast
  have q1: "RS232_QUEUE (after_talk e RA_POLL s) = []" using q by (simp add: after_talk_fields)
  show ?thesis
    apply (subst poll_loop.simps)
    apply (cases ra_run; cases dec_run)
    apply (auto simp add: ab poll_axis_running poll_axis_idle [OF fromhex_polls(1) q l]
        poll_axis_idle [OF fromhex_polls(2) q l] poll_axis_idle [OF fromhex_polls(2) q1 l] Let_def)
    done
qed






lemma encoded_bytes_eq:
  assumes "0 \<le> a"
  shows "encoded_bytes a =
     (let n = \<lfloor>py_fmod a 360 / 360 * 2 ^ 24\<rfloor>
      in Inr [word_of_int (n div 65536), word_of_int (n div 256 mod 256), word_of_int (n mod 256)])"
proof -
  define n where "n = \<lfloor>py_fmod a 360 / 360 * 2 ^ 24\<rfloor>"
  have n: "0 \<le> n" "n < 2 ^ 24" unfolding n_def by (rule angle_int_range [OF assms])+
  have e: "encodeAngle a = Inr (hex2 (n div 65536), hex2 (n div 256 mod 256), hex2 (n mod 256))"
    unfolding n_def using encodeAngle_eq [OF assms] by (simp add: Let_def)
  show ?thesis
    unfolding encoded_bytes_def e n_def [symmetric] Let_def using three_bytes(1-6) [OF n]
    by (simp add: fromhex_hex2_3)
qed

lemma fromhex_goto_opcodes:
  "fromhex GOTO_MOT1_FAST = Inr [0x50, 0x04, 0x10, 0x02]"
  "fromhex GOTO_MOT1_SLOW = Inr [0x50, 0x04, 0x10, 0x17]"
  "fromhex GOTO_MOT2_FAST = Inr [0x50, 0x04, 0x11, 0x02]"
  "fromhex GOTO_MOT2_SLOW = Inr [0x50, 0x04, 0x11, 0x17]"
  by (simp_all add: GOTO_MOT1_FAST_def GOTO_MOT1_SLOW_def GOTO_MOT2_FAST_def GOTO_MOT2_SLOW_def
      digit_val_def)

lemma length_goto_opcodes:
  "length GOTO_MOT1_FAST = 8" "length GOTO_MOT1_SLOW = 8"
  "length GOTO_MOT2_FAST = 8" "length GOTO_MOT2_SLOW = 8"
  by (simp_all add: GOTO_MOT1_FAST_def GOTO_MOT1_SLOW_def GOTO_MOT2_FAST_def GOTO_MOT2_SLOW_def)

lemma fromhex_goto_command:
  assumes "even (length opc)" and "fromhex opc = Inr ob"
    and "encodeAngle a = Inr (h1, h2, h3)"
  shows "fromhex (opc @ h1 @ h2 @ h3 @ ''00'') = Inr (ob @ angle_bytes a @ [0x00])"
proof -
  from encodeAngle_total [of a] assms(3) obtain bs where
    l: "length h1 = 2" "length h2 = 2" "length h3 = 2" and b: "fromhex (h1 @ h2 @ h3) = Inr bs"
    by auto
  have ab: "angle_bytes a = bs"
    by (simp add: angle_bytes_def encoded_bytes_def assms(3) b)
  have z: "fromhex ''00'' = Inr [0x00]" by (simp add: digit_val_def)
  have "fromhex ((h1 @ h2 @ h3) @ ''00'') = Inr (bs @ [0x00])"
    by (subst fromhex_append) (simp_all add: l b z del: fromhex.simps)
  then have "fromhex (h1 @ h2 @ h3 @ ''00'') = Inr (bs @ [0x00])" by simp
  then show ?thesis
    unfolding ab by (simp add: fromhex_append assms(1,2) del: fromhex.simps)
qed

lemma GOTO_MOT1_frame:
  "\<exists>c. GOTO_MOT1 a fast = Inr c \<and>
     fromhex c = Inr (goto_frame (if fast then GOTO_MOT1_FAST else GOTO_MOT1_SLOW) a)"
proof -
  obtain h1 h2 h3 where e: "encodeAngle a = Inr (h1, h2, h3)"
    using encodeAngle_total [of a] by blast
  show ?thesis
    by (cases fast)
       (simp_all add: GOTO_MOT1_def e goto_frame_def frame_bytes_def
          fromhex_goto_command [OF _ _ e] length_goto_opcodes fromhex_goto_opcodes)
qed

lemma GOTO_MOT2_frame:
  "\<exists>c. GOTO_MOT2 a fast = Inr c \<and>
     fromhex c = Inr (goto_frame (if fast then GOTO_MOT2_FAST else GOTO_MOT2_SLOW) a)"
proof -
  obtain h1 h2 h3 where e: "encodeAngle a = Inr (h1, h2, h3)"
    using encodeAngle_total [of a] by blast
  show ?thesis
    by (cases fast)
       (simp_all add: GOTO_MOT2_def e goto_frame_def frame_bytes_def
          fromhex_goto_command [OF _ _ e] length_goto_opcodes fromhex_goto_opcodes)
qed



section \<open>The GOTO run\<close>

lemma move_two_phases:
  assumes c: "GOTO_MOT2 m2 True = Inr c2f" "GOTO_MOT2 m2 False = Inr c2s"
      "GOTO_MOT1 m1 True = Inr c1f" "GOTO_MOT1 m1 False = Inr c1s"
    and p1: "slew_phase e c2f c1f
        ((log_msg INFO ''Telescope is SLEWING to position...''
           (log_msg INFO ''Motor1 goes to: {} and Motor2 goes to: {}'' s))
         \<lparr>motion_status := SLEWING, GOTO_RUNNING := True, GOTO_IN_STOP := False\<rparr>)
        = Some (Returns () sf)"
    and p2: "slew_phase e c2s c1s sf = Some (Returns () ss)"
  shows "move e m1 m2 s =
    Some (Returns () (log_msg INFO ''Telescope is positioned at wished coordinate...''
       (ss\<lparr>GOTO_RUNNING := False, motion_status := POSITIONED\<rparr>)))"
  using p1 p2 by (simp add: move_def Let_def c lift_def andThen_def)



section \<open>An abort during the fast phase\<close>

lemma slew_phase_idle:
  assumes q: "RS232_QUEUE s = []" and c2: "fromhex c2 = Inr f2" and c1: "fromhex c1 = Inr f1"
  shows "slew_phase e c2 c1 s =
    poll_loop e False False False
      (log_msg INFO ''{data}'' (after_talk e f1 (log_msg INFO ''{data}'' (after_talk e f2 s))))"
proof -
  have qa: "RS232_QUEUE (log_msg INFO ''{data}'' (after_talk e f2 s)) = []"
    using q by (simp add: log_msg_fields after_talk_fields)
  show ?thesis
    by (simp add: slew_phase_def RS232_Talk_idle [OF c2 q] andThen_def RS232_Talk_idle [OF c1 qa])
qed

lemma move_abort_in_fast_phase:
  assumes q: "RS232_QUEUE s = []" and w: "wire s = []"
    and len: "\<forall>k. 2 \<le> length (replies e k)"
    and ab: "\<forall>k. abort_set e k = (4 \<le> k)"
  shows "returned (move e m1 m2 s) = Some () \<and>
    frames_sent s (move e m1 m2 s) =
      Some [goto_frame GOTO_MOT2_FAST m2, goto_frame GOTO_MOT1_FAST m1, RA_POLL, DEC_POLL,
            goto_frame GOTO_MOT2_SLOW m2, goto_frame GOTO_MOT1_SLOW m1] \<and>
    map_option motion_status (state_after (move e m1 m2 s)) = Some POSITIONED \<and>
    map_option GOTO_RUNNING (state_after (move e m1 m2 s)) = Some False"
proof -
  define s0 where "s0 = (log_msg INFO ''Telescope is SLEWING to position...''
           (log_msg INFO ''Motor1 goes to: {} and Motor2 goes to: {}'' s))
         \<lparr>motion_status := SLEWING, GOTO_RUNNING := True, GOTO_IN_STOP := False\<rparr>"
  have q0: "RS232_QUEUE s0 = []" and w0: "wire s0 = []"
    using q w by (simp_all add: s0_def log_msg_def)
  obtain c2f c2s c1f c1s where c: "GOTO_MOT2 m2 True = Inr c2f" "GOTO_MOT2 m2 False = Inr c2s"
      "GOTO_MOT1 m1 True = Inr c1f" "GOTO_MOT1 m1 False = Inr c1s"
    and f: "fromhex c2f = Inr (goto_frame GOTO_MOT2_FAST m2)"
      "fromhex c2s = Inr (goto_frame GOTO_MOT2_SLOW m2)"
      "fromhex c1f = Inr (goto_frame GOTO_MOT1_FAST m1)"
      "fromhex c1s = Inr (goto_frame GOTO_MOT1_SLOW m1)"
    using GOTO_MOT2_frame [of m2 True] GOTO_MOT2_frame [of m2 False]
      GOTO_MOT1_frame [of m1 True] GOTO_MOT1_frame [of m1 False] by auto
  define sb where "sb = log_msg INFO ''{data}'' (after_talk e (goto_frame GOTO_MOT1_FAST m1)
      (log_msg INFO ''{data}'' (after_talk e (goto_frame GOTO_MOT2_FAST m2) s0)))"
  have qb: "RS232_QUEUE sb = []"
    and wb: "map fst (wire sb) = [goto_frame GOTO_MOT2_FAST m2, goto_frame GOTO_MOT1_FAST m1]"
    using q0 w0 by (simp_all add: sb_def log_msg_fields after_talk_fields)
  have lb: "length (wire sb) = 2"
    using w0 by (simp add: sb_def log_msg_fields after_talk_fields)
  define sf where "sf = after_talk e DEC_POLL (after_talk e RA_POLL sb)"
  have qf: "RS232_QUEUE sf = []"
    and wf: "map fst (wire sf) =
      [goto_frame GOTO_MOT2_FAST m2, goto_frame GOTO_MOT1_FAST m1, RA_POLL, DEC_POLL]"
    using qb wb by (simp_all add: sf_def after_talk_fields)
  have lf: "length (wire sf) = 4" by (simp add: sf_def after_talk_fields lb)
  have nab: "\<not> abort_set e (length (wire sb))" by (simp add: ab lb)
  have "slew_phase e c2f c1f s0 = poll_loop e False False False sb"
    unfolding sb_def by (rule slew_phase_idle [OF q0 f(1) f(3)])
  also have "\<dots> = Some (Returns () sf)"
    unfolding poll_loop_step [OF qb len nab] Let_def
    by (simp add: sf_def [symmetric] poll_loop_aborted ab lf)
  finally have ph1: "slew_phase e c2f c1f s0 = Some (Returns () sf)" .
  define ss where "ss = log_msg INFO ''{data}'' (after_talk e (goto_frame GOTO_MOT1_SLOW m1)
      (log_msg INFO ''{data}'' (after_talk e (goto_frame GOTO_MOT2_SLOW m2) sf)))"
  have ws: "map fst (wire ss) =
      [goto_frame GOTO_MOT2_FAST m2, goto_frame GOTO_MOT1_FAST m1, RA_POLL, DEC_POLL,
       goto_frame GOTO_MOT2_SLOW m2, goto_frame GOTO_MOT1_SLOW m1]"
    using wf by (simp add: ss_def log_msg_fields after_talk_fields)
  have ls: "length (wire ss) = 6" by (simp add: ss_def log_msg_fields after_talk_fields lf)
  have "slew_phase e c2s c1s sf = poll_loop e False False False ss"
    unfolding ss_def by (rule slew_phase_idle [OF qf f(2) f(4)])
  also have "\<dots> = Some (Returns () ss)"
    by (rule poll_loop_aborted) (simp add: ab ls)
  finally have ph2: "slew_phase e c2s c1s sf = Some (Returns () ss)" .
  note m = move_two_phases [OF c ph1 [unfolded s0_def] ph2]
  show ?thesis
    unfolding m
    by (simp add: returned_def frames_sent_def state_after_def log_msg_def w ws)
qed

lemma angle_bytes_90: "angle_bytes 90 = [0x40, 0x00, 0x00]"
proof -
  have "\<lfloor>py_fmod 90 360 / 360 * 2 ^ 24\<rfloor> = 4194304" by (simp add: py_fmod_id)
  then show ?thesis by (simp add: angle_bytes_def encoded_bytes_eq Let_def)
qed

lemma stop_motion_sends_stop_frame:
  assumes "RS232_QUEUE s = []"
  shows "raised (stop_motion e s) = Some TypeError \<and> frames_sent s (stop_motion e s) = Some [[0x4D]]"
proof -
  have f: "fromhex GOTO_STOP = Inr [0x4D]" by (simp add: GOTO_STOP_def digit_val_def)
  have q: "RS232_QUEUE (s\<lparr>motion_status := ABORTING, GOTO_IN_STOP := True\<rparr>) = []"
    using assms by simp
  show ?thesis
    by (simp add: stop_motion_def Let_def RS232_Talk_idle [OF f q] andThen_def raised_def
        frames_sent_def state_after_def log_msg_def after_talk_fields)
qed

text \<open>
  Claim C3 does not hold of \<^verbatim>\<open>__move\<close>. On the mount as declared, with a transport that
  never reports the sentinel and an abort flag that is set once four transactions are done,
  that is after the first status request to each axis in the fast phase, the method leaves
  the fast loop and then sends the slow-phase frames of both motors all the same. It sends
  no stop frame, skips the second loop, and returns with the status \<open>POSITIONED\<close>.
\<close>

theorem move_abort_sends_slow_frames:
  "returned (move (mock_env 1000 (Some 4)) 90 90 initial_mount) = Some () \<and>
   frames_sent initial_mount (move (mock_env 1000 (Some 4)) 90 90 initial_mount) =
     Some [[0x50, 0x04, 0x11, 0x02, 0x40, 0x00, 0x00, 0x00],
           [0x50, 0x04, 0x10, 0x02, 0x40, 0x00, 0x00, 0x00],
           [0x50, 0x01, 0x10, 0x13, 0x00, 0x00, 0x00, 0x01],
           [0x50, 0x01, 0x11, 0x13, 0x00, 0x00, 0x00, 0x01],
           [0x50, 0x04, 0x11, 0x17, 0x40, 0x00, 0x00, 0x00],
           [0x50, 0x04, 0x10, 0x17, 0x40, 0x00, 0x00, 0x00]] \<and>
   map_option motion_status (state_after (move (mock_env 1000 (Some 4)) 90 90 initial_mount)) =
     Some POSITIONED \<and>
   map_option GOTO_RUNNING (state_after (move (mock_env 1000 (Some 4)) 90 90 initial_mount)) =
     Some False"
proof -
  have q: "RS232_QUEUE initial_mount = []" and w: "wire initial_mount = []"
    by (simp_all add: initial_mount_def)
  have len: "\<forall>k. 2 \<le> length (replies (mock_env 1000 (Some 4)) k)"
    and ab: "\<forall>k. abort_set (mock_env 1000 (Some 4)) k = (4 \<le> k)"
    by (simp_all add: mock_env_def)
  have g: "goto_frame GOTO_MOT2_FAST 90 = [0x50, 0x04, 0x11, 0x02, 0x40, 0x00, 0x00, 0x00]"
    "goto_frame GOTO_MOT1_FAST 90 = [0x50, 0x04, 0x10, 0x02, 0x40, 0x00, 0x00, 0x00]"
    "goto_frame GOTO_MOT2_SLOW 90 = [0x50, 0x04, 0x11, 0x17, 0x40, 0x00, 0x00, 0x00]"
    "goto_frame GOTO_MOT1_SLOW 90 = [0x50, 0x04, 0x10, 0x17, 0x40, 0x00, 0x00, 0x00]"
    by (simp_all add: goto_frame_def frame_bytes_def fromhex_goto_opcodes angle_bytes_90)
  show ?thesis
    using move_abort_in_fast_phase [OF q w len ab, of 90 90]
    unfolding g fromhex_polls(3,4) .
qed

end
